theory Spec2Isabelle
  imports Complex_Main
begin

section \<open>Alpaca history provider: data model\<close>

text \<open>
  The development embeds \<^verbatim>\<open>src/cli/tester/history-providers/alpaca.ts\<close>.
  Timestamps are integral milliseconds since the epoch and are modelled as \<open>int\<close>
  (JavaScript numbers are exact on them up to \<open>2^53\<close>); prices and volumes are only
  carried around and are modelled as \<open>real\<close>.  The fields \<^verbatim>\<open>o, h, l, c, v\<close> of a
  candle carry the prefix \<open>cd_\<close>.

  A candle's \<open>time\<close> is a number or \<^verbatim>\<open>NaN\<close> when it comes from \<^verbatim>\<open>Date.parse\<close>, and it
  is \<^verbatim>\<open>null\<close> when a \<^verbatim>\<open>NaN\<close> was written to a history file and read back
  (\<^verbatim>\<open>JSON.stringify\<close> prints \<^verbatim>\<open>NaN\<close> as \<^verbatim>\<open>null\<close>).  In a comparison with a number
  \<^verbatim>\<open>null\<close> counts as \<open>0\<close> and \<^verbatim>\<open>NaN\<close> makes the comparison false: \<open>to_number\<close> is
  the number a time is compared as, if any.
\<close>

datatype js_time = TimeNum int | TimeNaN | TimeNull

fun to_number :: "js_time \<Rightarrow> int option" where
  "to_number (TimeNum t) = Some t"
| "to_number TimeNaN = None"
| "to_number TimeNull = Some 0"

record candle =
  cd_o :: real
  cd_h :: real
  cd_l :: real
  cd_c :: real
  cd_v :: real
  time :: js_time

text \<open>The raw bar of the upstream client (\<^verbatim>\<open>bar.raw()\<close>), with its textual timestamp.\<close>

record bar =
  raw_o :: real
  raw_h :: real
  raw_l :: real
  raw_c :: real
  raw_v :: real
  raw_t :: string

text \<open>
  What can be thrown: the string thrown by \<^verbatim>\<open>convertTimeFrame\<close>, or an error object
  with a message and possibly a (numeric) code.
\<close>

datatype js_error = ThrownString string | ErrorObject string "int option"

fun err_message :: "js_error \<Rightarrow> string option" where
  "err_message (ThrownString s) = None"
| "err_message (ErrorObject m k) = Some m"

fun err_code :: "js_error \<Rightarrow> int option" where
  "err_code (ThrownString s) = None"
| "err_code (ErrorObject m k) = k"

text \<open>Truthiness of \<^verbatim>\<open>e.code\<close>: absent and \<open>0\<close> are falsy.\<close>

definition code_truthy :: "js_error \<Rightarrow> bool" where
  "code_truthy e = (case err_code e of None \<Rightarrow> False | Some k \<Rightarrow> k \<noteq> 0)"

text \<open>
  The value a per-day promise resolves to: a candle array, whose elements may be falsy
  when it was read back from a history file (\<open>None\<close>), or a falsy value altogether
  (\<open>None\<close>).  A promise is modelled by its settled outcome.
\<close>

type_synonym day_data = "candle option list option"
type_synonym promise = "js_error + day_data"

subsection \<open>Effects\<close>

datatype log_msg = History_loading int | Missed_data | Error_message "string option"

text \<open>
  Every effect of the module is appended to a trace.  \<open>Enqueue from to\<close> records
  \<^verbatim>\<open>reqs.push(requestDay(from, to, ...))\<close> and \<open>Flush n ok\<close> records
  \<^verbatim>\<open>await collectCandles(reqs)\<close> on \<open>n\<close> promises, with whether it resolved.
  \<open>Sleep ms\<close> is the delay handed to \<^verbatim>\<open>setTimeout\<close>.
\<close>

datatype event =
    Enqueue int int
  | CacheRead string
  | CacheWrite string "candle list"
  | Upstream string int int string
  | Flush nat bool
  | Sleep int
  | Log log_msg
  | ProgressStart int int
  | ProgressUpdate int
  | ProgressStop

record world =
  files :: "string \<Rightarrow> string option"
  events :: "event list"
  clock :: int
  now :: int

text \<open>
  The collaborators that are not part of this file: \<^verbatim>\<open>date.isWeekend\<close>,
  \<^verbatim>\<open>date.isSameDay\<close>, \<^verbatim>\<open>JSON.parse\<close>, the serialisation done by
  \<^verbatim>\<open>file.saveFile\<close>, \<^verbatim>\<open>Date.parse\<close>, the upstream call
  \<^verbatim>\<open>alpaca.getBars\<close> (its answer may depend on how many calls were made before),
  the printing of \<^verbatim>\<open>x / 100000\<close> in a template string, and
  \<^verbatim>\<open>now.getTimezoneOffset()\<close> in minutes.
\<close>

record env =
  isWeekend :: "int \<Rightarrow> bool"
  isSameDay :: "int \<Rightarrow> int \<Rightarrow> bool"
  json_parse :: "string \<Rightarrow> js_error + day_data"
  json_save :: "candle list \<Rightarrow> string"
  date_parse :: "string \<Rightarrow> int option"
  getBars :: "nat \<Rightarrow> string \<Rightarrow> int \<Rightarrow> int \<Rightarrow> string \<Rightarrow> js_error + bar list"
  show_scaled :: "int \<Rightarrow> string"
  tzOffset :: int

definition emit :: "event list \<Rightarrow> world \<Rightarrow> world" where
  "emit es w = w\<lparr>events := events w @ es\<rparr>"

subsection \<open>Projections of a trace\<close>

fun chunk_ev :: "event \<Rightarrow> (int \<times> int) list" where
  "chunk_ev (Enqueue f t) = [(f, t)]"
| "chunk_ev _ = []"

fun flush_ev :: "event \<Rightarrow> (nat \<times> bool) list" where
  "flush_ev (Flush n ok) = [(n, ok)]"
| "flush_ev _ = []"

fun sleep_ev :: "event \<Rightarrow> int list" where
  "sleep_ev (Sleep d) = [d]"
| "sleep_ev _ = []"

fun progress_ev :: "event \<Rightarrow> int list" where
  "progress_ev (ProgressUpdate n) = [n]"
| "progress_ev _ = []"

fun upstream_ev :: "event \<Rightarrow> (string \<times> int \<times> int \<times> string) list" where
  "upstream_ev (Upstream s f t tf) = [(s, f, t, tf)]"
| "upstream_ev _ = []"

fun cache_ev :: "event \<Rightarrow> string list" where
  "cache_ev (CacheRead p) = [p]"
| "cache_ev (CacheWrite p d) = [p]"
| "cache_ev _ = []"

definition enqueued :: "event list \<Rightarrow> (int \<times> int) list" where
  "enqueued es = concat (map chunk_ev es)"

definition flushes :: "event list \<Rightarrow> (nat \<times> bool) list" where
  "flushes es = concat (map flush_ev es)"

definition sleeps :: "event list \<Rightarrow> int list" where
  "sleeps es = concat (map sleep_ev es)"

definition progress_updates :: "event list \<Rightarrow> int list" where
  "progress_updates es = concat (map progress_ev es)"

definition upstream_calls :: "event list \<Rightarrow> (string \<times> int \<times> int \<times> string) list" where
  "upstream_calls es = concat (map upstream_ev es)"

definition cache_accesses :: "event list \<Rightarrow> string list" where
  "cache_accesses es = concat (map cache_ev es)"

section \<open>The per-day fetch\<close>

fun convertTimeFrame :: "string \<Rightarrow> js_error + string" where
  "convertTimeFrame timeframe =
     (if timeframe = ''1min'' then Inr ''1Min''
      else if timeframe = ''1h'' then Inr ''1Hour''
      else if timeframe = ''day'' then Inr ''1Day''
      else Inl (ThrownString (''Alpaca integration does not support '' @ timeframe @ '' timeframe'')))"

definition transformAlpacaCandle :: "env \<Rightarrow> bar \<Rightarrow> candle" where
  "transformAlpacaCandle E b =
     \<lparr>cd_o = raw_o b, cd_h = raw_h b, cd_l = raw_l b, cd_c = raw_c b, cd_v = raw_v b,
      time = (case date_parse E (raw_t b) of None \<Rightarrow> TimeNaN | Some t \<Rightarrow> TimeNum t)\<rparr>"

definition getPath :: "env \<Rightarrow> string \<Rightarrow> string \<Rightarrow> int \<Rightarrow> int \<Rightarrow> string" where
  "getPath E ticker interval from to =
     ''history/alpaca/'' @ ticker @ ''/'' @ interval @ ''/''
       @ show_scaled E from @ ''-'' @ show_scaled E to @ ''.txt''"

definition saveDay :: "env \<Rightarrow> string \<Rightarrow> candle list \<Rightarrow> world \<Rightarrow> world" where
  "saveDay E path data w =
     emit [CacheWrite path data] (w\<lparr>files := (files w)(path \<mapsto> json_save E data)\<rparr>)"

text \<open>\<^verbatim>\<open>if (historyFile)\<close>: a missing file and an empty one are both falsy.\<close>

definition readFile :: "world \<Rightarrow> string \<Rightarrow> string option" where
  "readFile w path = (case files w path of None \<Rightarrow> None | Some s \<Rightarrow> if s = [] then None else Some s)"

text \<open>
  \<^verbatim>\<open>requestDay\<close> is run to completion when it is called: the model takes no
  interleaving of the continuations of concurrently pending days into account.  The
  argument object of \<^verbatim>\<open>getBars\<close> is built first, so \<^verbatim>\<open>convertTimeFrame\<close> throws
  before the call is made.  A response that cannot be mapped counts as a failed call.
\<close>

definition requestDay :: "env \<Rightarrow> world \<Rightarrow> int \<Rightarrow> int \<Rightarrow> string \<Rightarrow> string \<Rightarrow> world \<times> promise" where
  "requestDay E w from to ticker interval =
     (if isWeekend E from then (w, Inr (Some []))
      else
        let path = getPath E ticker interval from to;
            w1 = emit [CacheRead path] w
        in (case readFile w path of
              Some historyFile \<Rightarrow> (w1, json_parse E historyFile)
            | None \<Rightarrow>
               (case convertTimeFrame interval of
                  Inl e \<Rightarrow> (w1, Inl e)
                | Inr tf \<Rightarrow>
                   let w2 = emit [Upstream ticker from to tf] w1
                   in (case getBars E (length (upstream_calls (events w1))) ticker from to tf of
                         Inl e \<Rightarrow> (w2, Inl e)
                       | Inr bars \<Rightarrow>
                          let result = map (transformAlpacaCandle E) bars
                          in if \<not> isSameDay E (clock w2) from
                             then (saveDay E path result w2, Inr (Some (map Some result)))
                             else (w2, Inr (Some (map Some result)))))))"

section \<open>Collecting a batch\<close>

text \<open>
  \<^verbatim>\<open>Promise.all\<close>: all values, or a rejection.  With several rejected promises the
  model takes the first in request order.
\<close>

fun promise_all :: "promise list \<Rightarrow> js_error + day_data list" where
  "promise_all [] = Inr []"
| "promise_all (Inl e # ps) = Inl e"
| "promise_all (Inr d # ps) = (case promise_all ps of Inl e \<Rightarrow> Inl e | Inr ds \<Rightarrow> Inr (d # ds))"

fun collect_each :: "day_data list \<Rightarrow> world \<times> candle list \<Rightarrow> world \<times> candle list" where
  "collect_each [] acc = acc"
| "collect_each (None # ds) (w, result) = collect_each ds (emit [Log Missed_data] w, result)"
| "collect_each (Some candles # ds) (w, result) =
     collect_each ds (w, result @ map the (filter (\<lambda>x. x \<noteq> None) candles))"

definition collectCandles :: "world \<Rightarrow> promise list \<Rightarrow> world \<times> (js_error + candle list)" where
  "collectCandles w reqs =
     (case promise_all reqs of
        Inl e \<Rightarrow> (emit [Flush (length reqs) False] w, Inl e)
      | Inr res \<Rightarrow>
         (let (w', result) = collect_each res (emit [Flush (length reqs) True] w, [])
          in (w', Inr result)))"

section \<open>The explicit-range entry point\<close>

text \<open>\<^verbatim>\<open>~~x\<close>: truncation towards zero, then wrap-around to a signed 32-bit integer.\<close>

definition trunc_div :: "int \<Rightarrow> int \<Rightarrow> int" where
  "trunc_div a b = (if 0 \<le> a then a div b else - ((- a) div b))"

definition to_int32 :: "int \<Rightarrow> int" where
  "to_int32 x = (x + 2 ^ 31) mod 2 ^ 32 - 2 ^ 31"

definition day_floor :: "int \<Rightarrow> int" where
  "day_floor t = to_int32 (trunc_div t 86400000) * 86400000"

text \<open>
  The local variables of the loop.  \<open>s_chunkStart\<close> is \<open>None\<close> while the variable is
  \<^verbatim>\<open>undefined\<close>; \<^verbatim>\<open>!chunkStart\<close> also holds when it is \<open>0\<close>.
\<close>

record sched =
  s_from :: int
  s_to :: int
  s_chunkStart :: "int option"
  s_tries :: nat
  s_reqs :: "promise list"
  s_result :: "candle list"
  s_world :: world

definition not_chunkStart :: "int option \<Rightarrow> bool" where
  "not_chunkStart cs = (case cs of None \<Rightarrow> True | Some x \<Rightarrow> x = 0)"

definition sleep :: "int \<Rightarrow> world \<Rightarrow> world" where
  "sleep ms w = emit [Sleep ms] (w\<lparr>clock := clock w + ms\<rparr>)"

text \<open>One pass through the body of the \<^verbatim>\<open>while\<close> loop, with its \<^verbatim>\<open>catch\<close>.\<close>

definition interval_step :: "env \<Rightarrow> string \<Rightarrow> string \<Rightarrow> int \<Rightarrow> sched \<Rightarrow> sched" where
  "interval_step E ticker interval endt s =
     (let to = s_from s + 86400 * 1000;
          chunkStart = (if not_chunkStart (s_chunkStart s) then s_from s else the (s_chunkStart s));
          (w1, promise) = requestDay E (emit [Enqueue (s_from s) to] (s_world s)) (s_from s) to ticker interval;
          reqs = s_reqs s @ [promise]
      in if length reqs = 50 \<or> to \<ge> endt then
           (case collectCandles w1 reqs of
              (w2, Inr data) \<Rightarrow>
                 s\<lparr>s_from := to, s_to := to, s_chunkStart := Some to, s_tries := 0,
                   s_reqs := [], s_result := s_result s @ data, s_world := w2\<rparr>
            | (w2, Inl e) \<Rightarrow>
                 s\<lparr>s_from := chunkStart, s_to := to, s_chunkStart := Some chunkStart,
                   s_tries := s_tries s + 1, s_reqs := [],
                   s_world := sleep (2 ^ (s_tries s + 1) * 10000) w2\<rparr>)
         else
           s\<lparr>s_from := to, s_to := to, s_chunkStart := Some chunkStart, s_reqs := reqs,
             s_world := w1\<rparr>)"

text \<open>
  The loop may retry for ever, so it runs on fuel: \<open>None\<close> means that the fuel was used
  up before the loop condition became false.
\<close>

fun interval_loop :: "nat \<Rightarrow> env \<Rightarrow> string \<Rightarrow> string \<Rightarrow> int \<Rightarrow> sched \<Rightarrow> sched option" where
  "interval_loop 0 E ticker interval endt s = (if s_to s \<le> endt then None else Some s)"
| "interval_loop (Suc n) E ticker interval endt s =
     (if s_to s \<le> endt then interval_loop n E ticker interval endt (interval_step E ticker interval endt s)
      else Some s)"

text \<open>
  The promise that is pushed in the pass that starts in state \<open>s\<close>: the fetch of the day
  at the cursor, in the world as it is then.
\<close>

definition fetch_of :: "env \<Rightarrow> string \<Rightarrow> string \<Rightarrow> 'a sched_scheme \<Rightarrow> promise" where
  "fetch_of E ticker interval s =
     snd (requestDay E (emit [Enqueue (s_from s) (s_from s + 86400 * 1000)] (s_world s))
            (s_from s) (s_from s + 86400 * 1000) ticker interval)"

text \<open>
  The state after at most \<open>n\<close> passes through the loop: the first \<open>n\<close> passes of a run,
  whether or not the run ever returns.
\<close>

fun interval_passes :: "nat \<Rightarrow> env \<Rightarrow> string \<Rightarrow> string \<Rightarrow> int \<Rightarrow> sched \<Rightarrow> sched" where
  "interval_passes 0 E ticker interval endt s = s"
| "interval_passes (Suc n) E ticker interval endt s =
     (if s_to s \<le> endt then interval_passes n E ticker interval endt (interval_step E ticker interval endt s)
      else s)"

definition in_bounds :: "int \<Rightarrow> int \<Rightarrow> candle \<Rightarrow> bool" where
  "in_bounds filterFrom filterTo cd =
     (case to_number (time cd) of None \<Rightarrow> False | Some t \<Rightarrow> t \<ge> filterFrom \<and> t \<le> filterTo)"

definition norm_start :: "env \<Rightarrow> int \<Rightarrow> int" where
  "norm_start E start = day_floor start - tzOffset E * 60 * 1000"

definition norm_end :: "int \<Rightarrow> int" where
  "norm_end endt = day_floor endt"

definition interval_init :: "env \<Rightarrow> world \<Rightarrow> int \<Rightarrow> sched" where
  "interval_init E w start =
     \<lparr>s_from = norm_start E start, s_to = norm_start E start, s_chunkStart = None, s_tries = 0,
      s_reqs = [], s_result = [], s_world = w\<rparr>"

definition getHistoryIntervalAlpaca ::
  "nat \<Rightarrow> env \<Rightarrow> world \<Rightarrow> string \<Rightarrow> int \<Rightarrow> int \<Rightarrow> string \<Rightarrow> (world \<times> candle list) option" where
  "getHistoryIntervalAlpaca fuel E w ticker start endt interval =
     (let filterFrom = start; filterTo = endt
      in case interval_loop fuel E ticker interval (norm_end endt) (interval_init E w start) of
           None \<Rightarrow> None
         | Some s \<Rightarrow> Some (s_world s, filter (in_bounds filterFrom filterTo) (s_result s)))"

section \<open>The fixed-window entry point\<close>

text \<open>
  \<^verbatim>\<open>now.setMinutes(0); now.setHours(0); now.setSeconds(0); now.setMilliseconds(0)\<close>
  moves the module's \<^verbatim>\<open>now\<close> to local midnight; the timezone offset is taken
  to be the same before and after.
\<close>

definition local_midnight :: "int \<Rightarrow> int \<Rightarrow> int" where
  "local_midnight tz t = t - (t - tz * 60 * 1000) mod 86400000"

record fsched = sched +
  s_progressValue :: int

text \<open>
  One pass through the loop body: \<open>Inl\<close> is the \<^verbatim>\<open>throw e\<close> of the
  \<^verbatim>\<open>catch\<close> block, with the world it leaves behind.
\<close>

definition fromAlpaca_step ::
  "env \<Rightarrow> string \<Rightarrow> string \<Rightarrow> int \<Rightarrow> fsched \<Rightarrow> (js_error \<times> world) + fsched" where
  "fromAlpaca_step E ticker interval endt s =
     (let to = s_from s + 86400 * 1000;
          chunkStart = (if not_chunkStart (s_chunkStart s) then s_from s else the (s_chunkStart s));
          (w1, promise) = requestDay E (emit [Enqueue (s_from s) to] (s_world s)) (s_from s) to ticker interval;
          reqs = s_reqs s @ [promise]
      in if length reqs = 50 \<or> to \<ge> endt then
           (case collectCandles w1 reqs of
              (w2, Inr data) \<Rightarrow>
                 Inr (s\<lparr>s_from := to, s_to := to, s_chunkStart := Some to, s_tries := 0,
                        s_reqs := [], s_result := s_result s @ data,
                        s_world := emit [ProgressUpdate (s_progressValue s + 1)] w2,
                        s_progressValue := s_progressValue s + 1\<rparr>)
            | (w2, Inl e) \<Rightarrow>
                 (let progressValue = s_progressValue s - (int (length reqs) - 1);
                      w3 = emit [ProgressUpdate progressValue] w2
                  in if code_truthy e \<or> \<not> code_truthy e
                     then Inl (e, emit [Log (Error_message (err_message e))] w3)
                     else Inr (s\<lparr>s_from := chunkStart, s_to := to, s_chunkStart := Some chunkStart,
                                 s_tries := s_tries s + 1, s_reqs := [],
                                 s_world := sleep (2 ^ (s_tries s + 1) * 10000) w3,
                                 s_progressValue := progressValue\<rparr>)))
         else
           Inr (s\<lparr>s_from := to, s_to := to, s_chunkStart := Some chunkStart, s_reqs := reqs,
                  s_world := emit [ProgressUpdate (s_progressValue s + 1)] w1,
                  s_progressValue := s_progressValue s + 1\<rparr>))"

fun fromAlpaca_loop ::
  "nat \<Rightarrow> env \<Rightarrow> string \<Rightarrow> string \<Rightarrow> int \<Rightarrow> fsched \<Rightarrow> ((js_error \<times> world) + fsched) option" where
  "fromAlpaca_loop 0 E ticker interval endt s = (if s_to s \<le> endt then None else Some (Inr s))"
| "fromAlpaca_loop (Suc n) E ticker interval endt s =
     (if s_to s \<le> endt then
        (case fromAlpaca_step E ticker interval endt s of
           Inl ew \<Rightarrow> Some (Inl ew)
         | Inr s' \<Rightarrow> fromAlpaca_loop n E ticker interval endt s')
      else Some (Inr s))"

text \<open>
  The state of a run before its \<open>(n + 1)\<close>-th pass; when the run is over earlier, because
  the loop condition failed or a pass threw, the state in which it stopped.
\<close>

fun fromAlpaca_passes :: "nat \<Rightarrow> env \<Rightarrow> string \<Rightarrow> string \<Rightarrow> int \<Rightarrow> fsched \<Rightarrow> fsched" where
  "fromAlpaca_passes 0 E ticker interval endt s = s"
| "fromAlpaca_passes (Suc n) E ticker interval endt s =
     (if s_to s \<le> endt then
        (case fromAlpaca_step E ticker interval endt s of
           Inl ew \<Rightarrow> s
         | Inr s' \<Rightarrow> fromAlpaca_passes n E ticker interval endt s')
      else s)"

definition window_end :: "env \<Rightarrow> world \<Rightarrow> int \<Rightarrow> int" where
  "window_end E w gapDays =
     local_midnight (tzOffset E) (now w) - tzOffset E * 60 * 1000 - 86400000 * gapDays"

definition window_from :: "env \<Rightarrow> world \<Rightarrow> int \<Rightarrow> int \<Rightarrow> int" where
  "window_from E w days gapDays = window_end E w gapDays - 86400000 * days"

definition fromAlpaca_init :: "env \<Rightarrow> world \<Rightarrow> int \<Rightarrow> int \<Rightarrow> fsched" where
  "fromAlpaca_init E w days gapDays =
     \<lparr>s_from = window_from E w days gapDays, s_to = window_from E w days gapDays,
      s_chunkStart = None, s_tries = 0, s_reqs = [], s_result = [],
      s_world = emit [Log (History_loading (window_from E w days gapDays)), ProgressStart days 0]
                  (w\<lparr>now := local_midnight (tzOffset E) (now w)\<rparr>),
      s_progressValue = 0\<rparr>"

text \<open>\<^verbatim>\<open>if (!gapDays) end -= 900000\<close>.\<close>

definition loop_end :: "env \<Rightarrow> world \<Rightarrow> int \<Rightarrow> int" where
  "loop_end E w gapDays =
     (if gapDays = 0 then window_end E w gapDays - 900000 else window_end E w gapDays)"

definition getHistoryFromAlpaca ::
  "nat \<Rightarrow> env \<Rightarrow> world \<Rightarrow> string \<Rightarrow> int \<Rightarrow> string \<Rightarrow> int \<Rightarrow> (world \<times> (js_error + candle list)) option" where
  "getHistoryFromAlpaca fuel E w ticker days interval gapDays =
     (case fromAlpaca_loop fuel E ticker interval (loop_end E w gapDays) (fromAlpaca_init E w days gapDays) of
        None \<Rightarrow> None
      | Some (Inl (e, w')) \<Rightarrow> Some (w', Inl e)
      | Some (Inr s) \<Rightarrow> Some (emit [ProgressUpdate days, ProgressStop] (s_world s), Inr (s_result s)))"

section \<open>A concrete environment\<close>

text \<open>
  A machine on UTC, used to run the model on concrete requests.  Day \<open>0\<close> of the epoch
  is a Thursday.  \<open>demo_show\<close> prints the quotient by \<open>100000\<close> in decimal, up to
  thirteen digits (all timestamps used below are multiples of \<open>100000\<close>), and \<open>demo_date_parse\<close> knows three
  timestamps of the provider.
\<close>

definition utc_weekend :: "int \<Rightarrow> bool" where
  "utc_weekend t = ((t div 86400000 + 4) mod 7 = 0 \<or> (t div 86400000 + 4) mod 7 = 6)"

definition utc_same_day :: "int \<Rightarrow> int \<Rightarrow> bool" where
  "utc_same_day a b = (a div 86400000 = b div 86400000)"

definition digit_char :: "nat \<Rightarrow> char" where
  "digit_char d = ''0123456789'' ! d"

definition demo_show :: "int \<Rightarrow> string" where
  "demo_show n =
     (let q = nat (\<bar>n\<bar> div 100000);
          ds = dropWhile (\<lambda>ch. ch = CHR ''0'')
                 (map (\<lambda>k. digit_char (q div 10 ^ k mod 10)) [12, 11, 10, 9, 8, 7, 6, 5, 4, 3, 2, 1, 0])
      in (if n < 0 then ''-'' else []) @ (if ds = [] then ''0'' else ds))"

definition demo_date_parse :: "string \<Rightarrow> int option" where
  "demo_date_parse =
     map_of [(''2021-01-04T15:00:00Z'', 1609772400000),
             (''2021-01-05T15:00:00Z'', 1609858800000),
             (''2021-01-06T15:00:00Z'', 1609945200000)]"

text \<open>
  The serialisation of the concrete environment knows one candle list by content, the
  one candle of \<open>demo_bar\<close> with a time that is \<^verbatim>\<open>NaN\<close>: it is written with the time
  \<^verbatim>\<open>null\<close>, and that text is read back as the candle with the time \<^verbatim>\<open>null\<close>.  Every
  other list is written as \<open>[..]\<close>, and every other text is read as the empty list.
\<close>

definition null_time_json :: string where
  "null_time_json = ''[{o:1,h:2,l:1,c:2,v:10,time:null}]''"

definition demo_json_save :: "candle list \<Rightarrow> string" where
  "demo_json_save cs =
     (if cs = [\<lparr>cd_o = 1, cd_h = 2, cd_l = 1, cd_c = 2, cd_v = 10, time = TimeNaN\<rparr>]
      then null_time_json else ''[..]'')"

definition demo_json_parse :: "string \<Rightarrow> js_error + day_data" where
  "demo_json_parse s =
     (if s = null_time_json
      then Inr (Some [Some \<lparr>cd_o = 1, cd_h = 2, cd_l = 1, cd_c = 2, cd_v = 10, time = TimeNull\<rparr>])
      else Inr (Some []))"

definition demo_env :: "(nat \<Rightarrow> string \<Rightarrow> int \<Rightarrow> int \<Rightarrow> string \<Rightarrow> js_error + bar list) \<Rightarrow> env" where
  "demo_env upstream =
     \<lparr>isWeekend = utc_weekend, isSameDay = utc_same_day, json_parse = demo_json_parse,
      json_save = demo_json_save, date_parse = demo_date_parse, getBars = upstream,
      show_scaled = demo_show, tzOffset = 0\<rparr>"

text \<open>An empty cache; the process runs on Friday 2021-01-15, 12:00 UTC.\<close>

definition demo_world :: world where
  "demo_world = \<lparr>files = Map.empty, events = [], clock = 1610712000000, now = 1610712000000\<rparr>"

definition demo_bar :: "string \<Rightarrow> bar" where
  "demo_bar t = \<lparr>raw_o = 1, raw_h = 2, raw_l = 1, raw_c = 2, raw_v = 10, raw_t = t\<rparr>"

text \<open>
  Upstream behaviours: no bars at all; failure of the first \<open>k\<close> calls; one bar a day;
  one bar whose timestamp \<^verbatim>\<open>Date.parse\<close> does not understand.
\<close>

definition up_garbled :: "nat \<Rightarrow> string \<Rightarrow> int \<Rightarrow> int \<Rightarrow> string \<Rightarrow> js_error + bar list" where
  "up_garbled n ticker from to tf = Inr [demo_bar ''not a date'']"

definition up_empty :: "nat \<Rightarrow> string \<Rightarrow> int \<Rightarrow> int \<Rightarrow> string \<Rightarrow> js_error + bar list" where
  "up_empty n ticker from to tf = Inr []"

definition up_fail_first :: "nat \<Rightarrow> nat \<Rightarrow> string \<Rightarrow> int \<Rightarrow> int \<Rightarrow> string \<Rightarrow> js_error + bar list" where
  "up_fail_first k n ticker from to tf =
     (if n < k then Inl (ErrorObject ''rate limit'' (Some 429)) else Inr [])"

definition up_daily :: "nat \<Rightarrow> string \<Rightarrow> int \<Rightarrow> int \<Rightarrow> string \<Rightarrow> js_error + bar list" where
  "up_daily n ticker from to tf =
     (if from = 1609718400000 then Inr [demo_bar ''2021-01-04T15:00:00Z'']
      else if from = 1609804800000 then Inr [demo_bar ''2021-01-05T15:00:00Z'']
      else if from = 1609891200000 then Inr [demo_bar ''2021-01-06T15:00:00Z'']
      else Inr [])"

section \<open>Properties of traces\<close>

text \<open>The effects of a per-day fetch, and the log lines.\<close>

fun is_io :: "event \<Rightarrow> bool" where
  "is_io (CacheRead p) = True"
| "is_io (CacheWrite p d) = True"
| "is_io (Upstream s f t tf) = True"
| "is_io _ = False"

fun is_log :: "event \<Rightarrow> bool" where
  "is_log (Log m) = True"
| "is_log _ = False"

text \<open>
  \<open>backoff_ok k es\<close>: in the trace \<open>es\<close>, which starts after \<open>k\<close> consecutive failed
  flushes, every failed flush is followed at once by a sleep, the sleep after the
  \<open>N\<close>-th consecutive failure is \<open>2^N * 10000\<close> ms, there is no other sleep, and a
  successful flush starts the count again at \<open>0\<close>.
\<close>

fun backoff_ok :: "nat \<Rightarrow> event list \<Rightarrow> bool" where
  "backoff_ok k [] = True"
| "backoff_ok k (e # es) =
     (case e of
        Flush n ok \<Rightarrow>
          if ok then backoff_ok 0 es
          else (case es of
                  Sleep d # es' \<Rightarrow> d = 2 ^ (k + 1) * 10000 \<and> backoff_ok (k + 1) es'
                | _ \<Rightarrow> False)
      | Sleep d \<Rightarrow> False
      | _ \<Rightarrow> backoff_ok k es)"

section \<open>Basic facts\<close>

lemma emit_simps [simp]:
  "events (emit es w) = events w @ es"
  "files (emit es w) = files w"
  "clock (emit es w) = clock w"
  "now (emit es w) = now w"
  by (simp_all add: emit_def)

lemma proj_append [simp]:
  "enqueued (xs @ ys) = enqueued xs @ enqueued ys"
  "flushes (xs @ ys) = flushes xs @ flushes ys"
  "sleeps (xs @ ys) = sleeps xs @ sleeps ys"
  "progress_updates (xs @ ys) = progress_updates xs @ progress_updates ys"
  "upstream_calls (xs @ ys) = upstream_calls xs @ upstream_calls ys"
  "cache_accesses (xs @ ys) = cache_accesses xs @ cache_accesses ys"
  by (simp_all add: enqueued_def flushes_def sleeps_def progress_updates_def
      upstream_calls_def cache_accesses_def)

lemma proj_Nil [simp]:
  "enqueued [] = []" "flushes [] = []" "sleeps [] = []" "progress_updates [] = []"
  "upstream_calls [] = []" "cache_accesses [] = []"
  by (simp_all add: enqueued_def flushes_def sleeps_def progress_updates_def
      upstream_calls_def cache_accesses_def)

lemma proj_Cons [simp]:
  "enqueued (e # es) = chunk_ev e @ enqueued es"
  "flushes (e # es) = flush_ev e @ flushes es"
  "sleeps (e # es) = sleep_ev e @ sleeps es"
  "progress_updates (e # es) = progress_ev e @ progress_updates es"
  "upstream_calls (e # es) = upstream_ev e @ upstream_calls es"
  "cache_accesses (e # es) = cache_ev e @ cache_accesses es"
  by (simp_all add: enqueued_def flushes_def sleeps_def progress_updates_def
      upstream_calls_def cache_accesses_def)

lemma io_proj:
  "list_all is_io es \<Longrightarrow>
     enqueued es = [] \<and> flushes es = [] \<and> sleeps es = [] \<and> progress_updates es = []"
proof (induction es)
  case Nil
  then show ?case by simp
next
  case (Cons e es)
  then show ?case by (cases e) simp_all
qed

lemma requestDay_events:
  "\<exists>es. events (fst (requestDay E w f t tk iv)) = events w @ es \<and> list_all is_io es"
  by (auto simp: requestDay_def Let_def saveDay_def split: option.splits sum.splits)

lemma requestDay_clock [simp]:
  "clock (fst (requestDay E w f t tk iv)) = clock w"
  "now (fst (requestDay E w f t tk iv)) = now w"
  by (auto simp: requestDay_def Let_def saveDay_def split: option.splits sum.splits)

lemma demo_env_simps [simp]:
  "isWeekend (demo_env u) = utc_weekend"
  "isSameDay (demo_env u) = utc_same_day"
  "json_parse (demo_env u) = demo_json_parse"
  "json_save (demo_env u) = demo_json_save"
  "date_parse (demo_env u) = demo_date_parse"
  "getBars (demo_env u) = u"
  "show_scaled (demo_env u) = demo_show"
  "tzOffset (demo_env u) = 0"
  by (simp_all add: demo_env_def)

lemma demo_world_simps [simp]:
  "files demo_world = Map.empty"
  "events demo_world = []"
  "clock demo_world = 1610712000000"
  "now demo_world = 1610712000000"
  by (simp_all add: demo_world_def)

lemmas run_defs =
  getHistoryIntervalAlpaca_def interval_init_def norm_start_def norm_end_def day_floor_def
  trunc_div_def to_int32_def interval_step_def Let_def requestDay_def collectCandles_def
  getPath_def demo_show_def digit_char_def readFile_def saveDay_def sleep_def not_chunkStart_def
  utc_weekend_def utc_same_day_def transformAlpacaCandle_def in_bounds_def
  up_daily_def up_empty_def up_fail_first_def up_garbled_def demo_bar_def demo_date_parse_def
  demo_json_save_def demo_json_parse_def null_time_json_def emit_def
  upstream_calls_def demo_world_def

lemmas window_run_defs =
  getHistoryFromAlpaca_def fromAlpaca_init_def fromAlpaca_step_def window_end_def window_from_def
  loop_end_def local_midnight_def code_truthy_def run_defs

lemma interval_loop_exit:
  "\<not> s_to s \<le> endt \<Longrightarrow> interval_loop fuel E tk iv endt s = Some s"
  by (cases fuel) simp_all

section \<open>The per-day fetch: weekends and the current day\<close>

text \<open>
  Claim C8.  A day chunk whose \<open>from\<close> falls on a weekend resolves to the empty candle
  list and leaves the world as it was: no upstream call, no read of the cache and no
  write to it.
\<close>

theorem weekend_day_skipped:
  "isWeekend E from \<Longrightarrow> requestDay E w from to ticker interval = (w, Inr (Some []))"
  by (simp add: requestDay_def)

text \<open>Saturday 2021-01-02 on the UTC machine.\<close>

theorem weekend_day_skipped_witness:
  "utc_weekend 1609545600000 \<and>
   requestDay (demo_env up_daily) demo_world 1609545600000 1609632000000 ''ABC'' ''day''
     = (demo_world, Inr (Some []))"
  using weekend_day_skipped [of "demo_env up_daily" 1609545600000 demo_world 1609632000000 "''ABC''" "''day''"]
  by (simp add: utc_weekend_def)

text \<open>
  Claim C9.  For a day that is not a weekend, has no history file and is fetched
  successfully from upstream, the fetch returns the mapped candles; when \<open>from\<close> is on
  the current calendar day the files are unchanged and nothing is written, and on every
  other day the candles are written to the day's history file before returning.
\<close>

theorem today_not_cached:
  assumes "\<not> isWeekend E from"
    and "readFile w (getPath E ticker interval from to) = None"
    and "convertTimeFrame interval = Inr tf"
    and "getBars E (length (upstream_calls (events w))) ticker from to tf = Inr bars"
  shows "snd (requestDay E w from to ticker interval)
           = Inr (Some (map Some (map (transformAlpacaCandle E) bars)))
    \<and> (isSameDay E (clock w) from \<longrightarrow>
         files (fst (requestDay E w from to ticker interval)) = files w
       \<and> events (fst (requestDay E w from to ticker interval))
           = events w @ [CacheRead (getPath E ticker interval from to), Upstream ticker from to tf])
    \<and> (\<not> isSameDay E (clock w) from \<longrightarrow>
         files (fst (requestDay E w from to ticker interval))
           = (files w)(getPath E ticker interval from to
                \<mapsto> json_save E (map (transformAlpacaCandle E) bars))
       \<and> events (fst (requestDay E w from to ticker interval))
           = events w @ [CacheRead (getPath E ticker interval from to), Upstream ticker from to tf,
                         CacheWrite (getPath E ticker interval from to)
                           (map (transformAlpacaCandle E) bars)])"
  using assms by (simp add: requestDay_def Let_def saveDay_def del: convertTimeFrame.simps)

text \<open>
  The current day, Friday 2021-01-15, is fetched and not written; Monday 2021-01-04 is
  fetched and written.
\<close>

theorem today_not_cached_witness:
  "\<not> utc_weekend 1610668800000 \<and> utc_same_day (clock demo_world) 1610668800000
   \<and> snd (requestDay (demo_env up_daily) demo_world 1610668800000 1610755200000 ''ABC'' ''day'')
       = Inr (Some [])
   \<and> files (fst (requestDay (demo_env up_daily) demo_world 1610668800000 1610755200000 ''ABC'' ''day''))
       = files demo_world
   \<and> cache_accesses (events (fst (requestDay (demo_env up_daily) demo_world 1610668800000 1610755200000 ''ABC'' ''day'')))
       = [''history/alpaca/ABC/day/16106688-16107552.txt'']
   \<and> \<not> utc_same_day (clock demo_world) 1609718400000
   \<and> files (fst (requestDay (demo_env up_daily) demo_world 1609718400000 1609804800000 ''ABC'' ''day''))
        ''history/alpaca/ABC/day/16097184-16098048.txt'' = Some ''[..]''"
proof -
  have p1: "getPath (demo_env up_daily) ''ABC'' ''day'' 1610668800000 1610755200000
              = ''history/alpaca/ABC/day/16106688-16107552.txt''"
    by (simp add: getPath_def demo_show_def digit_char_def Let_def)
  have p2: "getPath (demo_env up_daily) ''ABC'' ''day'' 1609718400000 1609804800000
              = ''history/alpaca/ABC/day/16097184-16098048.txt''"
    by (simp add: getPath_def demo_show_def digit_char_def Let_def)
  have a: "\<not> isWeekend (demo_env up_daily) 1610668800000"
    and b: "\<not> isWeekend (demo_env up_daily) 1609718400000"
    by (simp_all add: utc_weekend_def)
  have r: "readFile demo_world p = None" for p
    by (simp add: readFile_def)
  have t: "convertTimeFrame ''day'' = Inr ''1Day''"
    by simp
  have g1: "getBars (demo_env up_daily) (length (upstream_calls (events demo_world))) ''ABC''
              1610668800000 1610755200000 ''1Day'' = Inr []"
    by (simp add: up_daily_def)
  have g2: "getBars (demo_env up_daily) (length (upstream_calls (events demo_world))) ''ABC''
              1609718400000 1609804800000 ''1Day'' = Inr [demo_bar ''2021-01-04T15:00:00Z'']"
    by (simp add: up_daily_def)
  have s1: "isSameDay (demo_env up_daily) (clock demo_world) 1610668800000"
    and s2: "\<not> isSameDay (demo_env up_daily) (clock demo_world) 1609718400000"
    by (simp_all add: utc_same_day_def)
  show ?thesis
    using today_not_cached [OF a r t g1] today_not_cached [OF b r t g2] a s1 s2
    by (simp add: p1 p2 demo_json_save_def transformAlpacaCandle_def demo_bar_def
        demo_date_parse_def)
qed

section \<open>The explicit-range entry point: empty ranges\<close>

text \<open>
  Claim C10.  When the normalised start of an explicit-range request lies strictly
  after its normalised end, the function returns the empty candle list and leaves the
  world as it was: no upstream call and no access to the cache.
\<close>

theorem empty_range_returns_nothing:
  "norm_end endt < norm_start E start \<Longrightarrow>
   getHistoryIntervalAlpaca fuel E w ticker start endt interval = Some (w, [])"
  by (simp add: getHistoryIntervalAlpaca_def interval_loop_exit interval_init_def)

theorem empty_range_returns_nothing_witness:
  "norm_end 1609718400000 < norm_start (demo_env up_daily) 1609804800000
   \<and> getHistoryIntervalAlpaca 0 (demo_env up_daily) demo_world ''ABC'' 1609804800000 1609718400000 ''day''
       = Some (demo_world, [])"
proof -
  have h: "norm_end 1609718400000 < norm_start (demo_env up_daily) 1609804800000"
    by (simp add: norm_end_def norm_start_def day_floor_def trunc_div_def to_int32_def)
  show ?thesis
    using h empty_range_returns_nothing [OF h] by simp
qed

section \<open>The explicit-range entry point: the bounds filter\<close>

text \<open>
  What the filter gives for every candle it returns: the time, as the comparison reads
  it, lies between the \<open>start\<close> and \<open>end\<close> of the request as they were passed in.  A
  time that is \<^verbatim>\<open>null\<close> is read as \<open>0\<close>.
\<close>

lemma returned_candles_compare_in_bounds:
  assumes "map_option snd (getHistoryIntervalAlpaca fuel E w ticker start endt interval) = Some cs"
    and "cd \<in> set cs"
  shows "\<exists>t. to_number (time cd) = Some t \<and> start \<le> t \<and> t \<le> endt"
  using assms
  by (auto simp: getHistoryIntervalAlpaca_def in_bounds_def split: option.splits)

text \<open>
  Claim C7 at the request \<open>start = 0\<close>, \<open>end = 0\<close> on the UTC machine, made twice, with a
  provider whose one bar for the day carries a timestamp that \<^verbatim>\<open>Date.parse\<close> does not
  understand.  The first call maps the bar to a candle whose time is \<^verbatim>\<open>NaN\<close>, filters it
  out and returns nothing, but it writes the candle to the history file of the day,
  where the time is \<^verbatim>\<open>null\<close>.  The second call reads the candle back from that file,
  and the filter lets it through, since \<^verbatim>\<open>null >= 0\<close> and \<^verbatim>\<open>null <= 0\<close> hold: the
  returned list holds a candle that has no timestamp at all.
\<close>

theorem null_time_passes_filter:
  "map_option snd
     (getHistoryIntervalAlpaca (Suc 0) (demo_env up_garbled) demo_world ''ABC'' 0 0 ''day'') = Some []
   \<and> files (fst (the (getHistoryIntervalAlpaca (Suc 0) (demo_env up_garbled) demo_world ''ABC'' 0 0 ''day'')))
        ''history/alpaca/ABC/day/0-864.txt''
      = Some ''[{o:1,h:2,l:1,c:2,v:10,time:null}]''
   \<and> map_option snd
        (getHistoryIntervalAlpaca (Suc 0) (demo_env up_garbled)
           (demo_world\<lparr>files := [''history/alpaca/ABC/day/0-864.txt'' \<mapsto> ''[{o:1,h:2,l:1,c:2,v:10,time:null}]'']\<rparr>)
           ''ABC'' 0 0 ''day'')
      = Some [\<lparr>cd_o = 1, cd_h = 2, cd_l = 1, cd_c = 2, cd_v = 10, time = TimeNull\<rparr>]"
  by (simp add: run_defs)

section \<open>Batches\<close>

lemma log_proj:
  "list_all is_log es \<Longrightarrow>
     enqueued es = [] \<and> flushes es = [] \<and> sleeps es = [] \<and> progress_updates es = []
     \<and> upstream_calls es = [] \<and> cache_accesses es = []"
proof (induction es)
  case Nil
  then show ?case by simp
next
  case (Cons e es)
  then show ?case by (cases e) simp_all
qed

lemma promise_all_ok:
  "list_all (\<lambda>p. \<not> isl p) ps \<Longrightarrow> \<exists>ds. promise_all ps = Inr ds"
proof (induction ps)
  case Nil
  then show ?case by simp
next
  case (Cons p ps)
  then obtain d where "p = Inr d" by (cases p) auto
  with Cons show ?case by auto
qed

lemma promise_all_Inr:
  "promise_all ps = Inr ds \<Longrightarrow> list_all (\<lambda>p. \<not> isl p) ps"
proof (induction ps arbitrary: ds)
  case Nil
  then show ?case by simp
next
  case (Cons p ps)
  then show ?case by (cases p) (auto split: sum.splits)
qed

lemma promise_all_append_Inl:
  "promise_all ps = Inl e \<Longrightarrow> promise_all (ps @ qs) = Inl e"
proof (induction ps)
  case Nil
  then show ?case by simp
next
  case (Cons p ps)
  then show ?case by (cases p) (auto split: sum.splits)
qed

lemma collect_each_world:
  "\<exists>ls. events (fst (collect_each ds (w, r))) = events w @ ls \<and> list_all is_log ls"
proof (induction ds arbitrary: w r)
  case Nil
  then show ?case by simp
next
  case (Cons d ds)
  show ?case
  proof (cases d)
    case None
    obtain ls where "events (fst (collect_each ds (emit [Log Missed_data] w, r)))
        = events (emit [Log Missed_data] w) @ ls" "list_all is_log ls"
      using Cons.IH by blast
    with None show ?thesis by simp
  next
    case (Some cs)
    with Cons.IH show ?thesis by simp
  qed
qed

lemma collect_each_frame [simp]:
  "files (fst (collect_each ds (w, r))) = files w"
  "clock (fst (collect_each ds (w, r))) = clock w"
proof (induction ds arbitrary: w r)
  case Nil
  {
    case 1
    then show ?case by simp
  next
    case 2
    then show ?case by simp
  }
next
  case (Cons d ds)
  {
    case 1
    then show ?case using Cons by (cases d) simp_all
  next
    case 2
    then show ?case using Cons by (cases d) simp_all
  }
qed

lemma collectCandles_fail:
  "promise_all reqs = Inl e \<Longrightarrow>
     collectCandles w reqs = (emit [Flush (length reqs) False] w, Inl e)"
  by (simp add: collectCandles_def)

lemma collectCandles_ok:
  assumes "promise_all reqs = Inr ds"
  shows "\<exists>w' data ls. collectCandles w reqs = (w', Inr data)
           \<and> events w' = events w @ Flush (length reqs) True # ls \<and> list_all is_log ls
           \<and> files w' = files w"
proof -
  obtain w' data where c: "collect_each ds (emit [Flush (length reqs) True] w, []) = (w', data)"
    by (cases "collect_each ds (emit [Flush (length reqs) True] w, [])")
  obtain ls where "events (fst (collect_each ds (emit [Flush (length reqs) True] w, [])))
        = events (emit [Flush (length reqs) True] w) @ ls" "list_all is_log ls"
    using collect_each_world by blast
  moreover have "files (fst (collect_each ds (emit [Flush (length reqs) True] w, []))) = files w"
    by simp
  ultimately show ?thesis
    using assms c by (simp add: collectCandles_def)
qed

section \<open>One pass of the explicit-range loop\<close>

lemma interval_step_enqueue:
  assumes "length (s_reqs s) + 1 \<noteq> 50" and "s_from s + 86400000 < endt"
  shows "interval_step E tk iv endt s =
     s\<lparr>s_from := s_from s + 86400000, s_to := s_from s + 86400000,
       s_chunkStart := Some (if not_chunkStart (s_chunkStart s) then s_from s else the (s_chunkStart s)),
       s_reqs := s_reqs s @ [snd (requestDay E (emit [Enqueue (s_from s) (s_from s + 86400000)] (s_world s))
                                   (s_from s) (s_from s + 86400000) tk iv)],
       s_world := fst (requestDay E (emit [Enqueue (s_from s) (s_from s + 86400000)] (s_world s))
                                   (s_from s) (s_from s + 86400000) tk iv)\<rparr>"
  using assms by (simp add: interval_step_def Let_def split_def)

lemma interval_step_commit:
  assumes "length (s_reqs s) + 1 = 50 \<or> endt \<le> s_from s + 86400000"
    and "promise_all (s_reqs s @ [snd (requestDay E (emit [Enqueue (s_from s) (s_from s + 86400000)] (s_world s))
                                   (s_from s) (s_from s + 86400000) tk iv)]) = Inr ds"
  shows "\<exists>w' data ls. interval_step E tk iv endt s =
     s\<lparr>s_from := s_from s + 86400000, s_to := s_from s + 86400000,
       s_chunkStart := Some (s_from s + 86400000), s_tries := 0, s_reqs := [],
       s_result := s_result s @ data, s_world := w'\<rparr>
     \<and> events w' = events (fst (requestDay E (emit [Enqueue (s_from s) (s_from s + 86400000)] (s_world s))
                                   (s_from s) (s_from s + 86400000) tk iv))
                    @ Flush (length (s_reqs s) + 1) True # ls
     \<and> list_all is_log ls"
proof -
  let ?rq = "requestDay E (emit [Enqueue (s_from s) (s_from s + 86400000)] (s_world s))
                                   (s_from s) (s_from s + 86400000) tk iv"
  obtain w' data ls where c: "collectCandles (fst ?rq) (s_reqs s @ [snd ?rq]) = (w', Inr data)"
    "events w' = events (fst ?rq) @ Flush (length (s_reqs s @ [snd ?rq])) True # ls" "list_all is_log ls"
    using collectCandles_ok [OF assms(2)] by blast
  show ?thesis
    using assms(1) c by (auto simp: interval_step_def Let_def split_def)
qed

lemma interval_step_fail:
  assumes "length (s_reqs s) + 1 = 50 \<or> endt \<le> s_from s + 86400000"
    and "promise_all (s_reqs s @ [snd (requestDay E (emit [Enqueue (s_from s) (s_from s + 86400000)] (s_world s))
                                   (s_from s) (s_from s + 86400000) tk iv)]) = Inl e"
  shows "interval_step E tk iv endt s =
     s\<lparr>s_from := (if not_chunkStart (s_chunkStart s) then s_from s else the (s_chunkStart s)),
       s_to := s_from s + 86400000,
       s_chunkStart := Some (if not_chunkStart (s_chunkStart s) then s_from s else the (s_chunkStart s)),
       s_tries := s_tries s + 1, s_reqs := [],
       s_world := sleep (2 ^ (s_tries s + 1) * 10000)
          (emit [Flush (length (s_reqs s) + 1) False]
             (fst (requestDay E (emit [Enqueue (s_from s) (s_from s + 86400000)] (s_world s))
                                   (s_from s) (s_from s + 86400000) tk iv)))\<rparr>"
  using assms(1) collectCandles_fail [OF assms(2)]
  by (auto simp: interval_step_def Let_def split_def)

lemma sleep_simps [simp]:
  "events (sleep ms w) = events w @ [Sleep ms]"
  "files (sleep ms w) = files w"
  by (simp_all add: sleep_def)

text \<open>Events that neither flush nor sleep do not matter to \<open>backoff_ok\<close>.\<close>

lemma backoff_neutral:
  "flushes xs = [] \<Longrightarrow> sleeps xs = [] \<Longrightarrow> backoff_ok k (xs @ ys) = backoff_ok k ys"
proof (induction xs)
  case Nil
  then show ?case by simp
next
  case (Cons x xs)
  then show ?case by (cases x) simp_all
qed

lemma interval_step_backoff:
  "\<exists>new. events (s_world (interval_step E tk iv endt s)) = events (s_world s) @ new
      \<and> (\<forall>rest. backoff_ok (s_tries s) (new @ rest)
                 = backoff_ok (s_tries (interval_step E tk iv endt s)) rest)"
proof -
  let ?rq = "requestDay E (emit [Enqueue (s_from s) (s_from s + 86400000)] (s_world s))
                                   (s_from s) (s_from s + 86400000) tk iv"
  obtain es where es: "events (fst ?rq) = events (s_world s) @ Enqueue (s_from s) (s_from s + 86400000) # es"
    "list_all is_io es"
    using requestDay_events [of E "emit [Enqueue (s_from s) (s_from s + 86400000)] (s_world s)"
        "s_from s" "s_from s + 86400000" tk iv]
    by auto
  have n: "flushes (Enqueue (s_from s) (s_from s + 86400000) # es) = []"
    "sleeps (Enqueue (s_from s) (s_from s + 86400000) # es) = []"
    using io_proj [OF es(2)] by simp_all
  show ?thesis
  proof (cases "length (s_reqs s) + 1 = 50 \<or> endt \<le> s_from s + 86400000")
    case False
    then have "interval_step E tk iv endt s = s\<lparr>s_from := s_from s + 86400000, s_to := s_from s + 86400000,
       s_chunkStart := Some (if not_chunkStart (s_chunkStart s) then s_from s else the (s_chunkStart s)),
       s_reqs := s_reqs s @ [snd ?rq], s_world := fst ?rq\<rparr>"
      using interval_step_enqueue [of s endt E tk iv] by simp
    then show ?thesis
      using es(1) backoff_neutral [OF n] by simp
  next
    case True
    show ?thesis
    proof (cases "promise_all (s_reqs s @ [snd ?rq])")
      case (Inl e)
      have "backoff_ok (s_tries s)
              ((Enqueue (s_from s) (s_from s + 86400000) # es)
                 @ Flush (length (s_reqs s) + 1) False # Sleep (2 ^ (s_tries s + 1) * 10000) # rest)
            = backoff_ok (s_tries s + 1) rest" for rest
        using backoff_neutral [OF n] by simp
      then show ?thesis
        using interval_step_fail [OF True Inl] es(1) by simp
    next
      case (Inr ds)
      obtain w' data ls where st: "interval_step E tk iv endt s =
         s\<lparr>s_from := s_from s + 86400000, s_to := s_from s + 86400000,
           s_chunkStart := Some (s_from s + 86400000), s_tries := 0, s_reqs := [],
           s_result := s_result s @ data, s_world := w'\<rparr>"
        "events w' = events (fst ?rq) @ Flush (length (s_reqs s) + 1) True # ls"
        "list_all is_log ls"
        using interval_step_commit [OF True Inr] by blast
      have l: "flushes ls = []" "sleeps ls = []"
        using log_proj [OF st(3)] by simp_all
      have "backoff_ok (s_tries s)
              ((Enqueue (s_from s) (s_from s + 86400000) # es)
                 @ Flush (length (s_reqs s) + 1) True # ls @ rest)
            = backoff_ok 0 rest" for rest
        using backoff_neutral [OF n] backoff_neutral [OF l] by simp
      then show ?thesis
        using st(1,2) es(1) by simp
    qed
  qed
qed

lemma interval_loop_backoff:
  "interval_loop fuel E tk iv endt s = Some s' \<Longrightarrow>
     \<exists>new. events (s_world s') = events (s_world s) @ new \<and> backoff_ok (s_tries s) new"
proof (induction fuel arbitrary: s)
  case 0
  then show ?case by (auto split: if_splits)
next
  case (Suc n)
  show ?case
  proof (cases "s_to s \<le> endt")
    case False
    with Suc.prems show ?thesis by auto
  next
    case True
    with Suc.prems have "interval_loop n E tk iv endt (interval_step E tk iv endt s) = Some s'"
      by simp
    from Suc.IH [OF this] obtain new' where
      n': "events (s_world s') = events (s_world (interval_step E tk iv endt s)) @ new'"
        "backoff_ok (s_tries (interval_step E tk iv endt s)) new'"
      by blast
    obtain new0 where n0: "events (s_world (interval_step E tk iv endt s)) = events (s_world s) @ new0"
      "\<And>rest. backoff_ok (s_tries s) (new0 @ rest)
                 = backoff_ok (s_tries (interval_step E tk iv endt s)) rest"
      using interval_step_backoff [of E tk iv endt s] by blast
    have "events (s_world s') = events (s_world s) @ (new0 @ new')"
      using n'(1) n0(1) by simp
    moreover have "backoff_ok (s_tries s) (new0 @ new')"
      using n0(2) n'(2) by simp
    ultimately show ?thesis by blast
  qed
qed

text \<open>
  The same holds after any number of passes, also in a run that never returns because
  every attempt fails.
\<close>

lemma interval_passes_backoff:
  "\<exists>new. events (s_world (interval_passes n E tk iv endt s)) = events (s_world s) @ new
      \<and> backoff_ok (s_tries s) new"
proof (induction n arbitrary: s)
  case 0
  then show ?case by simp
next
  case (Suc n)
  show ?case
  proof (cases "s_to s \<le> endt")
    case False
    then show ?thesis by simp
  next
    case True
    obtain new' where
      n': "events (s_world (interval_passes n E tk iv endt (interval_step E tk iv endt s)))
             = events (s_world (interval_step E tk iv endt s)) @ new'"
        "backoff_ok (s_tries (interval_step E tk iv endt s)) new'"
      using Suc.IH by blast
    obtain new0 where n0: "events (s_world (interval_step E tk iv endt s)) = events (s_world s) @ new0"
      "\<And>rest. backoff_ok (s_tries s) (new0 @ rest)
                 = backoff_ok (s_tries (interval_step E tk iv endt s)) rest"
      using interval_step_backoff [of E tk iv endt s] by blast
    have "events (s_world (interval_passes (Suc n) E tk iv endt s)) = events (s_world s) @ (new0 @ new')"
      using True n'(1) n0(1) by simp
    moreover have "backoff_ok (s_tries s) (new0 @ new')"
      using n0(2) n'(2) by simp
    ultimately show ?thesis by blast
  qed
qed

lemma interval_loop_passes:
  "interval_loop fuel E tk iv endt s = Some s' \<Longrightarrow> s' = interval_passes fuel E tk iv endt s"
  by (induction fuel arbitrary: s) (auto split: if_splits)

text \<open>
  Claim C5.  In every returning run of the explicit-range entry point, each failed batch
  flush is followed at once by a sleep, the sleep after the \<open>N\<close>-th consecutive
  failure lasts \<open>2^N * 10000\<close> ms, and a successful flush resets the count of
  consecutive failures to \<open>0\<close>.
\<close>

theorem backoff_delay_doubles:
  assumes "getHistoryIntervalAlpaca fuel E w ticker start endt interval = Some (w', cs)"
  shows "\<exists>new. events w' = events w @ new \<and> backoff_ok 0 new"
proof -
  obtain s' where s': "interval_loop fuel E ticker interval (norm_end endt) (interval_init E w start) = Some s'"
    and w': "w' = s_world s'"
    using assms by (auto simp: getHistoryIntervalAlpaca_def split: option.splits)
  show ?thesis
    using interval_loop_backoff [OF s'] w' by (simp add: interval_init_def)
qed

text \<open>
  Monday 2021-01-04 to Tuesday 2021-01-05, with the first two upstream calls failing: the
  sleeps are 20 s and 40 s, and the third attempt commits.
\<close>

lemma demo_run_backoff:
  "\<exists>w' cs. getHistoryIntervalAlpaca (Suc (Suc (Suc (Suc 0)))) (demo_env (up_fail_first 2)) demo_world
              ''ABC'' 1609718400000 1609804800000 ''day'' = Some (w', cs)
      \<and> sleeps (events w') = [20000, 40000]
      \<and> flushes (events w') = [(1, False), (1, False), (1, True), (1, True)]"
  by (simp add: run_defs)

theorem backoff_delay_doubles_witness:
  "\<exists>w' cs new. getHistoryIntervalAlpaca (Suc (Suc (Suc (Suc 0)))) (demo_env (up_fail_first 2)) demo_world
              ''ABC'' 1609718400000 1609804800000 ''day'' = Some (w', cs)
      \<and> sleeps (events w') = [20000, 40000]
      \<and> events w' = events demo_world @ new \<and> backoff_ok 0 new"
proof -
  obtain w' cs where r: "getHistoryIntervalAlpaca (Suc (Suc (Suc (Suc 0)))) (demo_env (up_fail_first 2))
      demo_world ''ABC'' 1609718400000 1609804800000 ''day'' = Some (w', cs)"
    and sl: "sleeps (events w') = [20000, 40000]"
    using demo_run_backoff by blast
  from backoff_delay_doubles [OF r] obtain new where
    "events w' = events demo_world @ new" "backoff_ok 0 new"
    by blast
  with r sl show ?thesis by blast
qed

section \<open>Runs of the explicit-range loop without a failed fetch\<close>

lemma upt_0_Suc:
  "[0..<Suc n] = 0 # map Suc [0..<n]"
  by (metis map_Suc_upt upt_conv_Cons zero_less_Suc)

lemma interval_step_ok:
  assumes p: "\<not> isl (fetch_of E tk iv s)"
    and reqs: "list_all (\<lambda>p. \<not> isl p) (s_reqs s)" "length (s_reqs s) < 50"
  shows "s_from (interval_step E tk iv endt s) = s_from s + 86400000
       \<and> s_to (interval_step E tk iv endt s) = s_from s + 86400000
       \<and> list_all (\<lambda>p. \<not> isl p) (s_reqs (interval_step E tk iv endt s))
       \<and> length (s_reqs (interval_step E tk iv endt s)) < 50
       \<and> enqueued (events (s_world (interval_step E tk iv endt s)))
            = enqueued (events (s_world s)) @ [(s_from s, s_from s + 86400000)]"
proof -
  let ?rq = "requestDay E (emit [Enqueue (s_from s) (s_from s + 86400000)] (s_world s))
                                   (s_from s) (s_from s + 86400000) tk iv"
  obtain es where es: "events (fst ?rq) = events (s_world s) @ Enqueue (s_from s) (s_from s + 86400000) # es"
    "list_all is_io es"
    using requestDay_events [of E "emit [Enqueue (s_from s) (s_from s + 86400000)] (s_world s)"
        "s_from s" "s_from s + 86400000" tk iv]
    by auto
  have en: "enqueued (events (fst ?rq)) = enqueued (events (s_world s)) @ [(s_from s, s_from s + 86400000)]"
    using es(1) io_proj [OF es(2)] by simp
  have p': "\<not> isl (snd ?rq)"
    using p by (simp add: fetch_of_def)
  show ?thesis
  proof (cases "length (s_reqs s) + 1 = 50 \<or> endt \<le> s_from s + 86400000")
    case False
    then have "interval_step E tk iv endt s = s\<lparr>s_from := s_from s + 86400000, s_to := s_from s + 86400000,
       s_chunkStart := Some (if not_chunkStart (s_chunkStart s) then s_from s else the (s_chunkStart s)),
       s_reqs := s_reqs s @ [snd ?rq], s_world := fst ?rq\<rparr>"
      using interval_step_enqueue [of s endt E tk iv] by simp
    then show ?thesis
      using en p' reqs False by simp
  next
    case True
    obtain ds where ds: "promise_all (s_reqs s @ [snd ?rq]) = Inr ds"
      using promise_all_ok [of "s_reqs s @ [snd ?rq]"] reqs(1) p' by auto
    obtain w' data ls where st: "interval_step E tk iv endt s =
         s\<lparr>s_from := s_from s + 86400000, s_to := s_from s + 86400000,
           s_chunkStart := Some (s_from s + 86400000), s_tries := 0, s_reqs := [],
           s_result := s_result s @ data, s_world := w'\<rparr>"
        "events w' = events (fst ?rq) @ Flush (length (s_reqs s) + 1) True # ls"
        "list_all is_log ls"
      using interval_step_commit [OF True ds] by blast
    show ?thesis
      using st(1,2) en log_proj [OF st(3)] by simp
  qed
qed

text \<open>
  \<open>n\<close> passes in which the fetch succeeds: the hypothesis speaks of the fetches of this
  run only, pass by pass.
\<close>

lemma interval_steps_ok:
  "\<forall>i<n. \<not> isl (fetch_of E tk iv (interval_passes i E tk iv endt s))
     \<Longrightarrow> list_all (\<lambda>p. \<not> isl p) (s_reqs s) \<Longrightarrow> length (s_reqs s) < 50 \<Longrightarrow> s_to s = s_from s
     \<Longrightarrow> int n * 86400000 \<le> endt - s_from s + 86400000
     \<Longrightarrow> \<exists>s'. (\<forall>fuel. interval_loop (n + fuel) E tk iv endt s = interval_loop fuel E tk iv endt s')
           \<and> s_from s' = s_from s + int n * 86400000 \<and> s_to s' = s_from s + int n * 86400000
           \<and> enqueued (events (s_world s'))
               = enqueued (events (s_world s))
                   @ map (\<lambda>i. (s_from s + int i * 86400000, s_from s + int i * 86400000 + 86400000)) [0..<n]"
proof (induction n arbitrary: s)
  case 0
  then show ?case by auto
next
  case (Suc n)
  let ?s1 = "interval_step E tk iv endt s"
  have enter: "s_to s \<le> endt"
    using Suc.prems(4,5) by simp
  have p0: "\<not> isl (fetch_of E tk iv s)"
    using Suc.prems(1) by force
  have st: "s_from ?s1 = s_from s + 86400000" "s_to ?s1 = s_from s + 86400000"
    "list_all (\<lambda>p. \<not> isl p) (s_reqs ?s1)" "length (s_reqs ?s1) < 50"
    "enqueued (events (s_world ?s1)) = enqueued (events (s_world s)) @ [(s_from s, s_from s + 86400000)]"
    using interval_step_ok [OF p0 Suc.prems(2,3), of endt] by simp_all
  have rest: "\<forall>i<n. \<not> isl (fetch_of E tk iv (interval_passes i E tk iv endt ?s1))"
  proof (intro allI impI)
    fix i assume "i < n"
    then have "Suc i < Suc n" by simp
    with Suc.prems(1) have "\<not> isl (fetch_of E tk iv (interval_passes (Suc i) E tk iv endt s))"
      by blast
    then show "\<not> isl (fetch_of E tk iv (interval_passes i E tk iv endt ?s1))"
      using enter by simp
  qed
  have "int n * 86400000 \<le> endt - s_from ?s1 + 86400000"
    using Suc.prems(5) st(1) by simp
  from Suc.IH [OF rest st(3,4) _ this] st(1,2)
  obtain s' where s': "\<And>fuel. interval_loop (n + fuel) E tk iv endt ?s1 = interval_loop fuel E tk iv endt s'"
    "s_from s' = s_from ?s1 + int n * 86400000" "s_to s' = s_from ?s1 + int n * 86400000"
    "enqueued (events (s_world s'))
               = enqueued (events (s_world ?s1))
                   @ map (\<lambda>i. (s_from ?s1 + int i * 86400000, s_from ?s1 + int i * 86400000 + 86400000)) [0..<n]"
    by auto
  have "interval_loop (Suc n + fuel) E tk iv endt s = interval_loop fuel E tk iv endt s'" for fuel
    using enter s'(1) by simp
  moreover have "map (\<lambda>i. (s_from s + int i * 86400000, s_from s + int i * 86400000 + 86400000)) [0..<Suc n]
      = (s_from s, s_from s + 86400000)
          # map (\<lambda>i. (s_from ?s1 + int i * 86400000, s_from ?s1 + int i * 86400000 + 86400000)) [0..<n]"
    unfolding upt_0_Suc by (simp add: st(1) o_def algebra_simps)
  ultimately show ?case
    using s'(2,3,4) st(1,5) by (intro exI [of _ s']) (simp add: algebra_simps)
qed

lemma interval_run_ok:
  assumes ok: "\<forall>i<Suc n. \<not> isl (fetch_of E ticker interval
                  (interval_passes i E ticker interval (norm_end endt) (interval_init E w start)))"
    and span: "norm_end endt = norm_start E start + int n * 86400000"
  shows "\<exists>w' cs. getHistoryIntervalAlpaca (Suc n + fuel) E w ticker start endt interval = Some (w', cs)
     \<and> enqueued (events w') = enqueued (events w)
          @ map (\<lambda>i. (norm_start E start + int i * 86400000,
                       norm_start E start + int i * 86400000 + 86400000)) [0..<Suc n]"
proof -
  let ?s0 = "interval_init E w start"
  have a: "list_all (\<lambda>p. \<not> isl p) (s_reqs ?s0)" "length (s_reqs ?s0) < 50" "s_to ?s0 = s_from ?s0"
    by (simp_all add: interval_init_def)
  have b: "int (Suc n) * 86400000 \<le> norm_end endt - s_from ?s0 + 86400000"
    using span by (simp add: interval_init_def)
  from interval_steps_ok [OF ok a b]
  obtain s' where s': "\<And>fuel. interval_loop (Suc n + fuel) E ticker interval (norm_end endt) ?s0
        = interval_loop fuel E ticker interval (norm_end endt) s'"
    "s_to s' = s_from ?s0 + int (Suc n) * 86400000"
    "enqueued (events (s_world s'))
               = enqueued (events (s_world ?s0))
                   @ map (\<lambda>i. (s_from ?s0 + int i * 86400000, s_from ?s0 + int i * 86400000 + 86400000)) [0..<Suc n]"
    by blast
  have "\<not> s_to s' \<le> norm_end endt"
    using s'(2) span by (simp add: interval_init_def)
  then have "interval_loop (Suc n + fuel) E ticker interval (norm_end endt) ?s0 = Some s'"
    using s'(1) interval_loop_exit by simp
  then show ?thesis
    using s'(3) by (simp add: getHistoryIntervalAlpaca_def interval_init_def del: upt_Suc)
qed

lemma demo_fetch_ok:
  "\<forall>w f t. \<not> isl (snd (requestDay (demo_env up_empty) w f t ''ABC'' ''day''))"
  by (simp add: requestDay_def Let_def up_empty_def demo_json_parse_def split: option.splits)

lemma demo_fetch_of_ok:
  "\<not> isl (fetch_of (demo_env up_empty) ''ABC'' ''day'' s)"
  using demo_fetch_ok by (simp add: fetch_of_def)

lemma demo_span_ten:
  "norm_end 1610582400000 = norm_start (demo_env up_empty) 1609718400000 + 10 * 86400000"
  by (simp add: norm_end_def norm_start_def day_floor_def trunc_div_def to_int32_def)

lemma upt_eleven:
  "[0..<11] = [0, 1, 2, 3, 4, 5, 6, 7, 8, 9, 10::nat]"
  by (simp add: upt_conv_Cons)

text \<open>
  Claim C1, as amended.  When the normalised end lies exactly ten days after the
  normalised start and none of the eleven per-day fetches of the run fails, the
  explicit-range entry point returns after enqueuing exactly eleven chunks: chunk \<open>i\<close>
  (for \<open>i\<close> from \<open>0\<close> to \<open>10\<close>) runs from \<open>start + i\<close> days to \<open>start + i + 1\<close> days.  They
  are contiguous, each is 86,400,000 ms long, and they cover the range up to one day past
  the normalised end: the loop goes on while the cursor is at most \<open>end\<close> and stops once
  the cursor exceeds it.  The hypothesis is about this run alone: the fetch made in its
  \<open>(i + 1)\<close>-th pass, for \<open>i < 11\<close>, in the world as that pass finds it.
\<close>

theorem ten_day_range_eleven_chunks:
  assumes "\<forall>i<11. \<not> isl (fetch_of E ticker interval
                  (interval_passes i E ticker interval (norm_end endt) (interval_init E w start)))"
    and "norm_end endt = norm_start E start + 10 * 86400000"
  shows "\<exists>w' cs. getHistoryIntervalAlpaca (11 + fuel) E w ticker start endt interval = Some (w', cs)
     \<and> enqueued (events w') = enqueued (events w)
          @ map (\<lambda>i. (norm_start E start + int i * 86400000,
                       norm_start E start + int i * 86400000 + 86400000)) [0..<11]"
proof -
  have "norm_end endt = norm_start E start + int 10 * 86400000"
    using assms(2) by simp
  moreover have "\<forall>i<Suc 10. \<not> isl (fetch_of E ticker interval
                  (interval_passes i E ticker interval (norm_end endt) (interval_init E w start)))"
    using assms(1) by simp
  ultimately show ?thesis
    using interval_run_ok [where n = 10 and fuel = fuel and w = w and E = E and ticker = ticker
        and interval = interval and endt = endt and start = start]
    by (simp del: upt_Suc)
qed

text \<open>Monday 2021-01-04 to Thursday 2021-01-14 on the UTC machine, with an upstream without bars.\<close>

theorem ten_day_range_eleven_chunks_witness:
  "norm_end 1610582400000 = norm_start (demo_env up_empty) 1609718400000 + 10 * 86400000
   \<and> (\<exists>w' cs. getHistoryIntervalAlpaca 11 (demo_env up_empty) demo_world ''ABC''
                 1609718400000 1610582400000 ''day'' = Some (w', cs)
        \<and> length (enqueued (events w')) = 11
        \<and> hd (enqueued (events w')) = (1609718400000, 1609804800000)
        \<and> last (enqueued (events w')) = (1610582400000, 1610668800000))"
proof -
  have ok: "\<forall>i<11. \<not> isl (fetch_of (demo_env up_empty) ''ABC'' ''day''
                  (interval_passes i (demo_env up_empty) ''ABC'' ''day'' (norm_end 1610582400000)
                     (interval_init (demo_env up_empty) demo_world 1609718400000)))"
    using demo_fetch_of_ok by blast
  from ten_day_range_eleven_chunks [OF ok demo_span_ten, where fuel = 0] demo_span_ten
  show ?thesis
    by (auto simp: upt_eleven norm_start_def day_floor_def trunc_div_def to_int32_def)
qed

text \<open>
  The claim as stated fails on this request: its normalised span is exactly ten days,
  and eleven chunks are enqueued, the last one starting at the normalised end.
\<close>

theorem ten_day_range_counterexample:
  "norm_end 1610582400000 = norm_start (demo_env up_empty) 1609718400000 + 10 * 86400000
   \<and> map_option (enqueued \<circ> events \<circ> fst)
        (getHistoryIntervalAlpaca 11 (demo_env up_empty) demo_world ''ABC''
           1609718400000 1610582400000 ''day'')
      = Some [(1609718400000, 1609804800000), (1609804800000, 1609891200000),
              (1609891200000, 1609977600000), (1609977600000, 1610064000000),
              (1610064000000, 1610150400000), (1610150400000, 1610236800000),
              (1610236800000, 1610323200000), (1610323200000, 1610409600000),
              (1610409600000, 1610496000000), (1610496000000, 1610582400000),
              (1610582400000, 1610668800000)]"
proof -
  have ok: "\<forall>i<Suc 10. \<not> isl (fetch_of (demo_env up_empty) ''ABC'' ''day''
                  (interval_passes i (demo_env up_empty) ''ABC'' ''day'' (norm_end 1610582400000)
                     (interval_init (demo_env up_empty) demo_world 1609718400000)))"
    using demo_fetch_of_ok by blast
  have "norm_end 1610582400000 = norm_start (demo_env up_empty) 1609718400000 + int 10 * 86400000"
    using demo_span_ten by simp
  from interval_run_ok [OF ok this, where fuel = 0] demo_span_ten
  show ?thesis
    by (auto simp: upt_eleven norm_start_def day_floor_def trunc_div_def to_int32_def)
qed

section \<open>One pass of the fixed-window loop\<close>

lemma fromAlpaca_step_enqueue:
  assumes "length (s_reqs s) + 1 \<noteq> 50" and "s_from s + 86400000 < endt"
  shows "fromAlpaca_step E tk iv endt s =
     Inr (s\<lparr>s_from := s_from s + 86400000, s_to := s_from s + 86400000,
       s_chunkStart := Some (if not_chunkStart (s_chunkStart s) then s_from s else the (s_chunkStart s)),
       s_reqs := s_reqs s @ [snd (requestDay E (emit [Enqueue (s_from s) (s_from s + 86400000)] (s_world s))
                                   (s_from s) (s_from s + 86400000) tk iv)],
       s_world := emit [ProgressUpdate (s_progressValue s + 1)]
                    (fst (requestDay E (emit [Enqueue (s_from s) (s_from s + 86400000)] (s_world s))
                                   (s_from s) (s_from s + 86400000) tk iv)),
       s_progressValue := s_progressValue s + 1\<rparr>)"
  using assms by (simp add: fromAlpaca_step_def Let_def split_def)

lemma fromAlpaca_step_commit:
  assumes "length (s_reqs s) + 1 = 50 \<or> endt \<le> s_from s + 86400000"
    and "promise_all (s_reqs s @ [snd (requestDay E (emit [Enqueue (s_from s) (s_from s + 86400000)] (s_world s))
                                   (s_from s) (s_from s + 86400000) tk iv)]) = Inr ds"
  shows "\<exists>w' data ls. fromAlpaca_step E tk iv endt s =
     Inr (s\<lparr>s_from := s_from s + 86400000, s_to := s_from s + 86400000,
       s_chunkStart := Some (s_from s + 86400000), s_tries := 0, s_reqs := [],
       s_result := s_result s @ data,
       s_world := emit [ProgressUpdate (s_progressValue s + 1)] w',
       s_progressValue := s_progressValue s + 1\<rparr>)
     \<and> events w' = events (fst (requestDay E (emit [Enqueue (s_from s) (s_from s + 86400000)] (s_world s))
                                   (s_from s) (s_from s + 86400000) tk iv))
                    @ Flush (length (s_reqs s) + 1) True # ls
     \<and> list_all is_log ls
     \<and> files w' = files (fst (requestDay E (emit [Enqueue (s_from s) (s_from s + 86400000)] (s_world s))
                                   (s_from s) (s_from s + 86400000) tk iv))"
proof -
  let ?rq = "requestDay E (emit [Enqueue (s_from s) (s_from s + 86400000)] (s_world s))
                                   (s_from s) (s_from s + 86400000) tk iv"
  obtain w' data ls where c: "collectCandles (fst ?rq) (s_reqs s @ [snd ?rq]) = (w', Inr data)"
    "events w' = events (fst ?rq) @ Flush (length (s_reqs s @ [snd ?rq])) True # ls" "list_all is_log ls"
    "files w' = files (fst ?rq)"
    using collectCandles_ok [OF assms(2)] by blast
  show ?thesis
    using assms(1) c by (auto simp: fromAlpaca_step_def Let_def split_def)
qed

lemma fromAlpaca_step_fail:
  assumes "length (s_reqs s) + 1 = 50 \<or> endt \<le> s_from s + 86400000"
    and "promise_all (s_reqs s @ [snd (requestDay E (emit [Enqueue (s_from s) (s_from s + 86400000)] (s_world s))
                                   (s_from s) (s_from s + 86400000) tk iv)]) = Inl e"
  shows "fromAlpaca_step E tk iv endt s =
     Inl (e, emit [Flush (length (s_reqs s) + 1) False,
                   ProgressUpdate (s_progressValue s - int (length (s_reqs s))),
                   Log (Error_message (err_message e))]
               (fst (requestDay E (emit [Enqueue (s_from s) (s_from s + 86400000)] (s_world s))
                                   (s_from s) (s_from s + 86400000) tk iv)))"
  using assms(1) collectCandles_fail [OF assms(2)]
  by (auto simp: fromAlpaca_step_def Let_def split_def emit_def)

lemma fromAlpaca_step_trace:
  "case fromAlpaca_step E tk iv endt s of
     Inl (e, w') \<Rightarrow>
       (\<exists>pre n v. events w' = events (s_world s)
                      @ pre @ [Flush n False, ProgressUpdate v, Log (Error_message (err_message e))]
                 \<and> sleeps pre = [] \<and> flushes pre = [])
   | Inr s' \<Rightarrow>
       (\<exists>new. events (s_world s') = events (s_world s) @ new \<and> sleeps new = []
              \<and> list_all snd (flushes new))"
proof -
  let ?rq = "requestDay E (emit [Enqueue (s_from s) (s_from s + 86400000)] (s_world s))
                                   (s_from s) (s_from s + 86400000) tk iv"
  obtain es where es: "events (fst ?rq) = events (s_world s) @ Enqueue (s_from s) (s_from s + 86400000) # es"
    "list_all is_io es"
    using requestDay_events [of E "emit [Enqueue (s_from s) (s_from s + 86400000)] (s_world s)"
        "s_from s" "s_from s + 86400000" tk iv]
    by auto
  have n: "flushes (Enqueue (s_from s) (s_from s + 86400000) # es) = []"
    "sleeps (Enqueue (s_from s) (s_from s + 86400000) # es) = []"
    using io_proj [OF es(2)] by simp_all
  show ?thesis
  proof (cases "length (s_reqs s) + 1 = 50 \<or> endt \<le> s_from s + 86400000")
    case False
    then show ?thesis
      using fromAlpaca_step_enqueue [of s endt E tk iv] es(1) n by simp
  next
    case True
    show ?thesis
    proof (cases "promise_all (s_reqs s @ [snd ?rq])")
      case (Inl e)
      have "events (fst ?rq) @ [Flush (length (s_reqs s) + 1) False,
                   ProgressUpdate (s_progressValue s - int (length (s_reqs s))),
                   Log (Error_message (err_message e))]
           = events (s_world s) @ (Enqueue (s_from s) (s_from s + 86400000) # es)
               @ [Flush (length (s_reqs s) + 1) False,
                   ProgressUpdate (s_progressValue s - int (length (s_reqs s))),
                   Log (Error_message (err_message e))]"
        using es(1) by simp
      then show ?thesis
        using fromAlpaca_step_fail [OF True Inl] n by (simp del: append_Cons proj_Cons; blast)
    next
      case (Inr ds)
      obtain w' data ls where st: "fromAlpaca_step E tk iv endt s =
         Inr (s\<lparr>s_from := s_from s + 86400000, s_to := s_from s + 86400000,
           s_chunkStart := Some (s_from s + 86400000), s_tries := 0, s_reqs := [],
           s_result := s_result s @ data,
           s_world := emit [ProgressUpdate (s_progressValue s + 1)] w',
           s_progressValue := s_progressValue s + 1\<rparr>)"
        "events w' = events (fst ?rq) @ Flush (length (s_reqs s) + 1) True # ls"
        "list_all is_log ls"
        using fromAlpaca_step_commit [OF True Inr] by blast
      show ?thesis
        using st(1,2) es(1) n log_proj [OF st(3)] by simp
    qed
  qed
qed

lemma fromAlpaca_loop_trace:
  "fromAlpaca_loop fuel E tk iv endt s = Some r \<Longrightarrow>
     (case r of
        Inl (e, w') \<Rightarrow>
          (\<exists>pre n v. events w' = events (s_world s)
                      @ pre @ [Flush n False, ProgressUpdate v, Log (Error_message (err_message e))]
                 \<and> sleeps pre = [] \<and> list_all snd (flushes pre))
      | Inr s' \<Rightarrow>
          (\<exists>new. events (s_world s') = events (s_world s) @ new \<and> sleeps new = []
              \<and> list_all snd (flushes new)))"
proof (induction fuel arbitrary: s)
  case 0
  then show ?case by (auto split: if_splits)
next
  case (Suc k)
  show ?case
  proof (cases "s_to s \<le> endt")
    case False
    with Suc.prems show ?thesis by auto
  next
    case True
    show ?thesis
    proof (cases "fromAlpaca_step E tk iv endt s")
      case (Inl ew)
      obtain e w' where ew: "ew = (e, w')" by (cases ew)
      have "r = Inl (e, w')"
        using Suc.prems True Inl ew by simp
      moreover obtain pre n v where "events w' = events (s_world s)
                      @ pre @ [Flush n False, ProgressUpdate v, Log (Error_message (err_message e))]"
          "sleeps pre = []" "flushes pre = []"
        using fromAlpaca_step_trace [where E = E and tk = tk and iv = iv and endt = endt and s = s] Inl ew by auto
      ultimately show ?thesis by auto
    next
      case (Inr s1)
      obtain new0 where n0: "events (s_world s1) = events (s_world s) @ new0" "sleeps new0 = []"
        "list_all snd (flushes new0)"
        using fromAlpaca_step_trace [where E = E and tk = tk and iv = iv and endt = endt and s = s] Inr by auto
      have run: "fromAlpaca_loop k E tk iv endt s1 = Some r"
        using Suc.prems True Inr by simp
      show ?thesis
      proof (cases r)
        case (Inl ew)
        obtain e w' where ew: "ew = (e, w')" by (cases ew)
        obtain pre n v where p: "events w' = events (s_world s1)
                      @ pre @ [Flush n False, ProgressUpdate v, Log (Error_message (err_message e))]"
          "sleeps pre = []" "list_all snd (flushes pre)"
          using Suc.IH [OF run] Inl ew by auto
        have "events w' = events (s_world s)
                @ (new0 @ pre) @ [Flush n False, ProgressUpdate v, Log (Error_message (err_message e))]"
          using p(1) n0(1) by simp
        moreover have "sleeps (new0 @ pre) = []" "list_all snd (flushes (new0 @ pre))"
          using p(2,3) n0(2,3) by simp_all
        ultimately show ?thesis
          using Inl ew by (simp del: append_assoc; blast)
      next
        case (Inr s')
        obtain new where p: "events (s_world s') = events (s_world s1) @ new" "sleeps new = []"
          "list_all snd (flushes new)"
          using Suc.IH [OF run] Inr by auto
        have "events (s_world s') = events (s_world s) @ (new0 @ new)"
          using p(1) n0(1) by simp
        moreover have "sleeps (new0 @ new) = []" "list_all snd (flushes (new0 @ new))"
          using p(2,3) n0(2,3) by simp_all
        ultimately show ?thesis
          using Inr by (simp del: append_assoc; blast)
      qed
    qed
  qed
qed

text \<open>
  The states of a run, pass by pass: the loop started in the first state behaves as the
  loop started in a later one, with less fuel; and up to any state of the run nothing
  sleeps and no flush has failed.
\<close>

lemma fromAlpaca_passes_loop:
  "\<exists>n\<le>i. \<forall>fuel. fromAlpaca_loop (n + fuel) E tk iv endt s
              = fromAlpaca_loop fuel E tk iv endt (fromAlpaca_passes i E tk iv endt s)"
proof (induction i arbitrary: s)
  case 0
  then show ?case by simp
next
  case (Suc i)
  show ?case
  proof (cases "s_to s \<le> endt")
    case False
    then have "\<forall>fuel. fromAlpaca_loop (0 + fuel) E tk iv endt s
              = fromAlpaca_loop fuel E tk iv endt (fromAlpaca_passes (Suc i) E tk iv endt s)"
      by simp
    then show ?thesis by blast
  next
    case True
    show ?thesis
    proof (cases "fromAlpaca_step E tk iv endt s")
      case (Inl ew)
      with True have "\<forall>fuel. fromAlpaca_loop (0 + fuel) E tk iv endt s
              = fromAlpaca_loop fuel E tk iv endt (fromAlpaca_passes (Suc i) E tk iv endt s)"
        by simp
      then show ?thesis by blast
    next
      case (Inr s1)
      obtain n where n: "n \<le> i" "\<And>fuel. fromAlpaca_loop (n + fuel) E tk iv endt s1
              = fromAlpaca_loop fuel E tk iv endt (fromAlpaca_passes i E tk iv endt s1)"
        using Suc.IH [of s1] by blast
      have "\<forall>fuel. fromAlpaca_loop (Suc n + fuel) E tk iv endt s
              = fromAlpaca_loop fuel E tk iv endt (fromAlpaca_passes (Suc i) E tk iv endt s)"
        using True Inr n(2) by simp
      moreover have "Suc n \<le> Suc i"
        using n(1) by simp
      ultimately show ?thesis by blast
    qed
  qed
qed

lemma fromAlpaca_passes_trace:
  "\<exists>new. events (s_world (fromAlpaca_passes i E tk iv endt s)) = events (s_world s) @ new
      \<and> sleeps new = [] \<and> list_all snd (flushes new)"
proof (induction i arbitrary: s)
  case 0
  then show ?case by simp
next
  case (Suc i)
  show ?case
  proof (cases "s_to s \<le> endt")
    case False
    then show ?thesis by simp
  next
    case True
    show ?thesis
    proof (cases "fromAlpaca_step E tk iv endt s")
      case (Inl ew)
      with True show ?thesis by simp
    next
      case (Inr s1)
      obtain new0 where n0: "events (s_world s1) = events (s_world s) @ new0" "sleeps new0 = []"
        "list_all snd (flushes new0)"
        using fromAlpaca_step_trace [where E = E and tk = tk and iv = iv and endt = endt and s = s] Inr
        by auto
      obtain new where n: "events (s_world (fromAlpaca_passes i E tk iv endt s1)) = events (s_world s1) @ new"
        "sleeps new = []" "list_all snd (flushes new)"
        using Suc.IH [of s1] by blast
      have "events (s_world (fromAlpaca_passes (Suc i) E tk iv endt s)) = events (s_world s) @ (new0 @ new)"
        using True Inr n(1) n0(1) by simp
      moreover have "sleeps (new0 @ new) = []" "list_all snd (flushes (new0 @ new))"
        using n(2,3) n0(2,3) by simp_all
      ultimately show ?thesis by blast
    qed
  qed
qed

text \<open>
  Claim C3.  Take any state \<open>s\<close> of a run of the fixed-window entry point, the one before
  its \<open>(i + 1)\<close>-th pass.  If the batch flush of that pass fails with an error \<open>e\<close>,
  whatever \<open>e\<close> is and whether or not it carries a code, then the call returns, and what
  it hands to the caller is \<open>e\<close>; it needs no more than \<open>i + 1\<close> passes for that.  The
  trace of the call ends with the failed flush, the rollback of the progress and the log
  of \<open>e.message\<close>; before that no flush failed, and nowhere is a sleep requested, so the
  backoff is never reached.
\<close>

theorem failed_flush_is_raised:
  assumes "s = fromAlpaca_passes i E ticker interval (loop_end E w gapDays) (fromAlpaca_init E w days gapDays)"
    and "s_to s \<le> loop_end E w gapDays"
    and "length (s_reqs s) + 1 = 50 \<or> loop_end E w gapDays \<le> s_from s + 86400000"
    and "promise_all (s_reqs s @ [fetch_of E ticker interval s]) = Inl e"
  shows "\<exists>n w' pre. n \<le> Suc i
       \<and> (\<forall>fuel. getHistoryFromAlpaca (n + fuel) E w ticker days interval gapDays = Some (w', Inl e))
       \<and> events w' = events w @ pre
            @ [Flush (length (s_reqs s) + 1) False,
               ProgressUpdate (s_progressValue s - int (length (s_reqs s))),
               Log (Error_message (err_message e))]
       \<and> sleeps pre = [] \<and> list_all snd (flushes pre)"
proof -
  let ?end = "loop_end E w gapDays"
  let ?s0 = "fromAlpaca_init E w days gapDays"
  let ?rq = "requestDay E (emit [Enqueue (s_from s) (s_from s + 86400000)] (s_world s))
                                   (s_from s) (s_from s + 86400000) ticker interval"
  let ?w' = "emit [Flush (length (s_reqs s) + 1) False,
                   ProgressUpdate (s_progressValue s - int (length (s_reqs s))),
                   Log (Error_message (err_message e))] (fst ?rq)"
  have pa: "promise_all (s_reqs s @ [snd ?rq]) = Inl e"
    using assms(4) by (simp add: fetch_of_def)
  have step: "fromAlpaca_step E ticker interval ?end s = Inl (e, ?w')"
    using fromAlpaca_step_fail [OF assms(3) pa] by simp
  obtain n where n: "n \<le> i" "\<And>fuel. fromAlpaca_loop (n + fuel) E ticker interval ?end ?s0
              = fromAlpaca_loop fuel E ticker interval ?end s"
    using fromAlpaca_passes_loop [of i E ticker interval ?end ?s0] assms(1) by blast
  have "fromAlpaca_loop (Suc n + fuel) E ticker interval ?end ?s0 = Some (Inl (e, ?w'))" for fuel
  proof -
    have "Suc n + fuel = n + Suc fuel" by simp
    then show ?thesis
      using n(2) [of "Suc fuel"] step assms(2) by simp
  qed
  then have run: "getHistoryFromAlpaca (Suc n + fuel) E w ticker days interval gapDays = Some (?w', Inl e)"
    for fuel
    by (simp add: getHistoryFromAlpaca_def)
  obtain new where new: "events (s_world s) = events (s_world ?s0) @ new" "sleeps new = []"
    "list_all snd (flushes new)"
    using fromAlpaca_passes_trace [of i E ticker interval ?end ?s0] assms(1) by blast
  obtain es where es: "events (fst ?rq) = events (s_world s) @ Enqueue (s_from s) (s_from s + 86400000) # es"
    "list_all is_io es"
    using requestDay_events [of E "emit [Enqueue (s_from s) (s_from s + 86400000)] (s_world s)"
        "s_from s" "s_from s + 86400000" ticker interval]
    by auto
  let ?pre = "[Log (History_loading (window_from E w days gapDays)), ProgressStart days 0]
                @ new @ Enqueue (s_from s) (s_from s + 86400000) # es"
  have "events ?w' = events w @ ?pre
            @ [Flush (length (s_reqs s) + 1) False,
               ProgressUpdate (s_progressValue s - int (length (s_reqs s))),
               Log (Error_message (err_message e))]"
    using es(1) new(1) by (simp add: fromAlpaca_init_def)
  moreover have "sleeps ?pre = []" "list_all snd (flushes ?pre)"
    using new(2,3) io_proj [OF es(2)] by simp_all
  moreover have "Suc n \<le> Suc i"
    using n(1) by simp
  ultimately show ?thesis
    using run by blast
qed

text \<open>
  A window of one day, Thursday 2021-01-14.  With the upstream call failing with a coded
  error, and with the timeframe \<open>5min\<close>, whose error is a thrown string without a code,
  the first pass flushes, the flush fails, and the error is what the caller gets.
\<close>

theorem failed_flush_is_raised_witness:
  "(\<exists>n w'. n \<le> Suc 0
      \<and> (\<forall>fuel. getHistoryFromAlpaca (n + fuel) (demo_env (up_fail_first 1)) demo_world ''ABC'' 1 ''day'' 0
                    = Some (w', Inl (ErrorObject ''rate limit'' (Some 429))))
      \<and> sleeps (events w') = []
      \<and> last (events w') = Log (Error_message (Some ''rate limit'')))
   \<and> (\<exists>n w'. n \<le> Suc 0
      \<and> (\<forall>fuel. getHistoryFromAlpaca (n + fuel) (demo_env up_empty) demo_world ''ABC'' 1 ''5min'' 0
                    = Some (w', Inl (ThrownString ''Alpaca integration does not support 5min timeframe'')))
      \<and> sleeps (events w') = []
      \<and> last (events w') = Log (Error_message None))"
proof -
  let ?E1 = "demo_env (up_fail_first 1)"
  let ?E2 = "demo_env up_empty"
  let ?s1 = "fromAlpaca_init ?E1 demo_world 1 0"
  let ?s2 = "fromAlpaca_init ?E2 demo_world 1 0"
  have a1: "?s1 = fromAlpaca_passes 0 ?E1 ''ABC'' ''day'' (loop_end ?E1 demo_world 0) ?s1"
    and a2: "?s2 = fromAlpaca_passes 0 ?E2 ''ABC'' ''5min'' (loop_end ?E2 demo_world 0) ?s2"
    by simp_all
  have b1: "s_to ?s1 \<le> loop_end ?E1 demo_world 0"
    and b2: "s_to ?s2 \<le> loop_end ?E2 demo_world 0"
    by (simp_all add: window_run_defs)
  have c1: "length (s_reqs ?s1) + 1 = 50 \<or> loop_end ?E1 demo_world 0 \<le> s_from ?s1 + 86400000"
    and c2: "length (s_reqs ?s2) + 1 = 50 \<or> loop_end ?E2 demo_world 0 \<le> s_from ?s2 + 86400000"
    by (simp_all add: window_run_defs)
  have d1: "promise_all (s_reqs ?s1 @ [fetch_of ?E1 ''ABC'' ''day'' ?s1])
              = Inl (ErrorObject ''rate limit'' (Some 429))"
    by (simp add: fetch_of_def window_run_defs)
  have d2: "promise_all (s_reqs ?s2 @ [fetch_of ?E2 ''ABC'' ''5min'' ?s2])
              = Inl (ThrownString ''Alpaca integration does not support 5min timeframe'')"
    by (simp add: fetch_of_def window_run_defs)
  from failed_flush_is_raised [OF a1 b1 c1 d1] failed_flush_is_raised [OF a2 b2 c2 d2]
  show ?thesis
    by (auto simp del: fromAlpaca_passes.simps)
qed

section \<open>Runs of the fixed-window loop without a failed fetch\<close>

lemma fromAlpaca_passes_stuck:
  "\<not> s_to s \<le> endt \<Longrightarrow> fromAlpaca_passes m E tk iv endt s = s"
  "fromAlpaca_step E tk iv endt s = Inl ew \<Longrightarrow> fromAlpaca_passes m E tk iv endt s = s"
  by (cases m; simp)+

lemma fromAlpaca_passes_add:
  "fromAlpaca_passes (n + m) E tk iv endt s
     = fromAlpaca_passes m E tk iv endt (fromAlpaca_passes n E tk iv endt s)"
proof (induction n arbitrary: s)
  case 0
  then show ?case by simp
next
  case (Suc n)
  show ?case
  proof (cases "s_to s \<le> endt")
    case False
    then show ?thesis by (simp add: fromAlpaca_passes_stuck)
  next
    case True
    show ?thesis
    proof (cases "fromAlpaca_step E tk iv endt s")
      case (Inl ew)
      with True show ?thesis by (simp add: fromAlpaca_passes_stuck)
    next
      case (Inr s1)
      with True Suc.IH show ?thesis by simp
    qed
  qed
qed

lemma fromAlpaca_enqueue_ok:
  assumes p: "\<not> isl (fetch_of E tk iv s)"
    and reqs: "list_all (\<lambda>p. \<not> isl p) (s_reqs s)"
    and nf: "length (s_reqs s) + 1 \<noteq> 50" "s_from s + 86400000 < endt"
  shows "\<exists>s1. fromAlpaca_step E tk iv endt s = Inr s1
       \<and> s_from s1 = s_from s + 86400000 \<and> s_to s1 = s_from s + 86400000
       \<and> list_all (\<lambda>p. \<not> isl p) (s_reqs s1) \<and> length (s_reqs s1) = length (s_reqs s) + 1
       \<and> s_progressValue s1 = s_progressValue s + 1
       \<and> progress_updates (events (s_world s1))
            = progress_updates (events (s_world s)) @ [s_progressValue s + 1]
       \<and> flushes (events (s_world s1)) = flushes (events (s_world s))"
proof -
  let ?rq = "requestDay E (emit [Enqueue (s_from s) (s_from s + 86400000)] (s_world s))
                                   (s_from s) (s_from s + 86400000) tk iv"
  obtain es where es: "events (fst ?rq) = events (s_world s) @ Enqueue (s_from s) (s_from s + 86400000) # es"
    "list_all is_io es"
    using requestDay_events [of E "emit [Enqueue (s_from s) (s_from s + 86400000)] (s_world s)"
        "s_from s" "s_from s + 86400000" tk iv]
    by auto
  have p': "\<not> isl (snd ?rq)"
    using p by (simp add: fetch_of_def)
  show ?thesis
    using fromAlpaca_step_enqueue [OF nf, of E tk iv] es(1) io_proj [OF es(2)] p' reqs by simp
qed

lemma fromAlpaca_flush_ok:
  assumes p: "\<not> isl (fetch_of E tk iv s)"
    and reqs: "list_all (\<lambda>p. \<not> isl p) (s_reqs s)"
    and fl: "length (s_reqs s) + 1 = 50 \<or> endt \<le> s_from s + 86400000"
  shows "\<exists>s1. fromAlpaca_step E tk iv endt s = Inr s1
       \<and> s_from s1 = s_from s + 86400000 \<and> s_to s1 = s_from s + 86400000
       \<and> s_reqs s1 = []
       \<and> s_progressValue s1 = s_progressValue s + 1
       \<and> progress_updates (events (s_world s1))
            = progress_updates (events (s_world s)) @ [s_progressValue s + 1]
       \<and> flushes (events (s_world s1)) = flushes (events (s_world s)) @ [(length (s_reqs s) + 1, True)]"
proof -
  let ?rq = "requestDay E (emit [Enqueue (s_from s) (s_from s + 86400000)] (s_world s))
                                   (s_from s) (s_from s + 86400000) tk iv"
  obtain es where es: "events (fst ?rq) = events (s_world s) @ Enqueue (s_from s) (s_from s + 86400000) # es"
    "list_all is_io es"
    using requestDay_events [of E "emit [Enqueue (s_from s) (s_from s + 86400000)] (s_world s)"
        "s_from s" "s_from s + 86400000" tk iv]
    by auto
  have p': "\<not> isl (snd ?rq)"
    using p by (simp add: fetch_of_def)
  obtain ds where ds: "promise_all (s_reqs s @ [snd ?rq]) = Inr ds"
    using promise_all_ok [of "s_reqs s @ [snd ?rq]"] reqs p' by auto
  obtain w' data ls where st: "fromAlpaca_step E tk iv endt s =
     Inr (s\<lparr>s_from := s_from s + 86400000, s_to := s_from s + 86400000,
       s_chunkStart := Some (s_from s + 86400000), s_tries := 0, s_reqs := [],
       s_result := s_result s @ data,
       s_world := emit [ProgressUpdate (s_progressValue s + 1)] w',
       s_progressValue := s_progressValue s + 1\<rparr>)"
    "events w' = events (fst ?rq) @ Flush (length (s_reqs s) + 1) True # ls"
    "list_all is_log ls"
    using fromAlpaca_step_commit [OF fl ds] by blast
  show ?thesis
    using st(1,2) es(1) io_proj [OF es(2)] log_proj [OF st(3)] by simp
qed

lemma fromAlpaca_enqueue_steps:
  "\<forall>i<n. \<not> isl (fetch_of E tk iv (fromAlpaca_passes i E tk iv endt s))
     \<Longrightarrow> list_all (\<lambda>p. \<not> isl p) (s_reqs s) \<Longrightarrow> s_to s = s_from s
     \<Longrightarrow> length (s_reqs s) + n < 50 \<Longrightarrow> s_from s + int n * 86400000 < endt
     \<Longrightarrow> \<exists>s'. (\<forall>fuel. fromAlpaca_loop (n + fuel) E tk iv endt s = fromAlpaca_loop fuel E tk iv endt s')
           \<and> fromAlpaca_passes n E tk iv endt s = s'
           \<and> s_from s' = s_from s + int n * 86400000 \<and> s_to s' = s_from s + int n * 86400000
           \<and> list_all (\<lambda>p. \<not> isl p) (s_reqs s') \<and> length (s_reqs s') = length (s_reqs s) + n
           \<and> s_progressValue s' = s_progressValue s + int n
           \<and> progress_updates (events (s_world s'))
               = progress_updates (events (s_world s)) @ map (\<lambda>i. s_progressValue s + 1 + int i) [0..<n]
           \<and> flushes (events (s_world s')) = flushes (events (s_world s))"
proof (induction n arbitrary: s)
  case 0
  then show ?case by auto
next
  case (Suc n)
  have nf: "length (s_reqs s) + 1 \<noteq> 50" "s_from s + 86400000 < endt"
    using Suc.prems(4,5) by simp_all
  have enter: "s_to s \<le> endt"
    using Suc.prems(3,5) by simp
  have p0: "\<not> isl (fetch_of E tk iv s)"
    using Suc.prems(1) by force
  obtain s1 where s1: "fromAlpaca_step E tk iv endt s = Inr s1"
       "s_from s1 = s_from s + 86400000" "s_to s1 = s_from s + 86400000"
       "list_all (\<lambda>p. \<not> isl p) (s_reqs s1)" "length (s_reqs s1) = length (s_reqs s) + 1"
       "s_progressValue s1 = s_progressValue s + 1"
       "progress_updates (events (s_world s1))
            = progress_updates (events (s_world s)) @ [s_progressValue s + 1]"
       "flushes (events (s_world s1)) = flushes (events (s_world s))"
    using fromAlpaca_enqueue_ok [OF p0 Suc.prems(2) nf] by blast
  have rest: "\<forall>i<n. \<not> isl (fetch_of E tk iv (fromAlpaca_passes i E tk iv endt s1))"
  proof (intro allI impI)
    fix i assume "i < n"
    then have "Suc i < Suc n" by simp
    with Suc.prems(1) have "\<not> isl (fetch_of E tk iv (fromAlpaca_passes (Suc i) E tk iv endt s))"
      by blast
    then show "\<not> isl (fetch_of E tk iv (fromAlpaca_passes i E tk iv endt s1))"
      using enter s1(1) by simp
  qed
  have a: "s_to s1 = s_from s1" "length (s_reqs s1) + n < 50" "s_from s1 + int n * 86400000 < endt"
    using s1(2,3,5) Suc.prems(4,5) by simp_all
  from Suc.IH [OF rest s1(4) a]
  obtain s' where s': "\<And>fuel. fromAlpaca_loop (n + fuel) E tk iv endt s1 = fromAlpaca_loop fuel E tk iv endt s'"
    "fromAlpaca_passes n E tk iv endt s1 = s'"
    "s_from s' = s_from s1 + int n * 86400000" "s_to s' = s_from s1 + int n * 86400000"
    "list_all (\<lambda>p. \<not> isl p) (s_reqs s')" "length (s_reqs s') = length (s_reqs s1) + n"
    "s_progressValue s' = s_progressValue s1 + int n"
    "progress_updates (events (s_world s'))
               = progress_updates (events (s_world s1)) @ map (\<lambda>i. s_progressValue s1 + 1 + int i) [0..<n]"
    "flushes (events (s_world s')) = flushes (events (s_world s1))"
    by blast
  have "fromAlpaca_loop (Suc n + fuel) E tk iv endt s = fromAlpaca_loop fuel E tk iv endt s'" for fuel
    using enter s1(1) s'(1) by simp
  moreover have "fromAlpaca_passes (Suc n) E tk iv endt s = s'"
    using enter s1(1) s'(2) by simp
  moreover have "map (\<lambda>i. s_progressValue s + 1 + int i) [0..<Suc n]
      = (s_progressValue s + 1) # map (\<lambda>i. s_progressValue s1 + 1 + int i) [0..<n]"
    unfolding upt_0_Suc by (simp add: s1(6) o_def algebra_simps)
  ultimately show ?case
    using s'(3-9) s1(2,5,6,7,8)
    by (intro exI [of _ s']) (simp add: algebra_simps del: fromAlpaca_passes.simps)
qed

lemma fromAlpaca_flush_step:
  assumes p: "\<not> isl (fetch_of E tk iv s)"
    and reqs: "list_all (\<lambda>p. \<not> isl p) (s_reqs s)"
    and enter: "s_to s \<le> endt"
    and fl: "length (s_reqs s) + 1 = 50 \<or> endt \<le> s_from s + 86400000"
  shows "\<exists>s'. (\<forall>fuel. fromAlpaca_loop (Suc fuel) E tk iv endt s = fromAlpaca_loop fuel E tk iv endt s')
       \<and> fromAlpaca_passes (Suc 0) E tk iv endt s = s'
       \<and> s_from s' = s_from s + 86400000 \<and> s_to s' = s_from s + 86400000
       \<and> s_reqs s' = [] \<and> s_progressValue s' = s_progressValue s + 1
       \<and> progress_updates (events (s_world s'))
            = progress_updates (events (s_world s)) @ [s_progressValue s + 1]
       \<and> flushes (events (s_world s')) = flushes (events (s_world s)) @ [(length (s_reqs s) + 1, True)]"
proof -
  obtain s1 where s1: "fromAlpaca_step E tk iv endt s = Inr s1"
       "s_from s1 = s_from s + 86400000 \<and> s_to s1 = s_from s + 86400000
       \<and> s_reqs s1 = []
       \<and> s_progressValue s1 = s_progressValue s + 1
       \<and> progress_updates (events (s_world s1))
            = progress_updates (events (s_world s)) @ [s_progressValue s + 1]
       \<and> flushes (events (s_world s1)) = flushes (events (s_world s)) @ [(length (s_reqs s) + 1, True)]"
    using fromAlpaca_flush_ok [OF p reqs fl] by blast
  have "fromAlpaca_loop (Suc fuel) E tk iv endt s = fromAlpaca_loop fuel E tk iv endt s1" for fuel
    using enter s1(1) by simp
  moreover have "fromAlpaca_passes (Suc 0) E tk iv endt s = s1"
    using enter s1(1) by simp
  ultimately show ?thesis
    using s1(2) by blast
qed

lemma fromAlpaca_loop_exit:
  "\<not> s_to s \<le> endt \<Longrightarrow> fromAlpaca_loop fuel E tk iv endt s = Some (Inr s)"
  by (cases fuel) simp_all

lemma fromAlpaca_51_steps:
  assumes ok: "\<forall>i<51. \<not> isl (fetch_of E tk iv (fromAlpaca_passes i E tk iv endt s))"
    and s: "s_reqs s = []" "s_to s = s_from s"
    and e: "s_from s + 50 * 86400000 \<le> endt" "endt \<le> s_from s + 51 * 86400000"
  shows "\<exists>s'. (\<forall>fuel. fromAlpaca_loop (51 + fuel) E tk iv endt s = fromAlpaca_loop fuel E tk iv endt s')
       \<and> fromAlpaca_passes 51 E tk iv endt s = s'
       \<and> s_from s' = s_from s + 51 * 86400000 \<and> s_to s' = s_from s + 51 * 86400000
       \<and> s_reqs s' = [] \<and> s_progressValue s' = s_progressValue s + 51
       \<and> progress_updates (events (s_world s'))
            = progress_updates (events (s_world s))
               @ map (\<lambda>i. s_progressValue s + 1 + int i) [0..<49]
               @ [s_progressValue s + 50, s_progressValue s + 51]
       \<and> flushes (events (s_world s')) = flushes (events (s_world s)) @ [(50, True), (1, True)]"
proof -
  have ok49: "\<forall>i<49. \<not> isl (fetch_of E tk iv (fromAlpaca_passes i E tk iv endt s))"
    using ok by simp
  have a: "list_all (\<lambda>p. \<not> isl p) (s_reqs s)" "length (s_reqs s) + 49 < 50"
    "s_from s + int 49 * 86400000 < endt"
    using s(1) e(1) by simp_all
  from fromAlpaca_enqueue_steps [OF ok49 a(1) s(2) a(2,3)]
  obtain s49 where s49:
    "\<And>fuel. fromAlpaca_loop (49 + fuel) E tk iv endt s = fromAlpaca_loop fuel E tk iv endt s49"
    "fromAlpaca_passes 49 E tk iv endt s = s49"
    "s_from s49 = s_from s + int 49 * 86400000" "s_to s49 = s_from s + int 49 * 86400000"
    "list_all (\<lambda>p. \<not> isl p) (s_reqs s49)" "length (s_reqs s49) = length (s_reqs s) + 49"
    "s_progressValue s49 = s_progressValue s + int 49"
    "progress_updates (events (s_world s49))
       = progress_updates (events (s_world s)) @ map (\<lambda>i. s_progressValue s + 1 + int i) [0..<49]"
    "flushes (events (s_world s49)) = flushes (events (s_world s))"
    by blast
  have p49: "\<not> isl (fetch_of E tk iv s49)"
    using ok s49(2) by force
  have b: "s_to s49 \<le> endt" "length (s_reqs s49) + 1 = 50 \<or> endt \<le> s_from s49 + 86400000"
    using s49(3,4,6) s(1) e(1) by simp_all
  from fromAlpaca_flush_step [OF p49 s49(5) b]
  obtain s50 where s50:
    "\<And>fuel. fromAlpaca_loop (Suc fuel) E tk iv endt s49 = fromAlpaca_loop fuel E tk iv endt s50"
    "fromAlpaca_passes (Suc 0) E tk iv endt s49 = s50"
    "s_from s50 = s_from s49 + 86400000" "s_to s50 = s_from s49 + 86400000"
    "s_reqs s50 = []" "s_progressValue s50 = s_progressValue s49 + 1"
    "progress_updates (events (s_world s50))
       = progress_updates (events (s_world s49)) @ [s_progressValue s49 + 1]"
    "flushes (events (s_world s50)) = flushes (events (s_world s49)) @ [(length (s_reqs s49) + 1, True)]"
    by blast
  have at50: "fromAlpaca_passes 50 E tk iv endt s = s50"
    using fromAlpaca_passes_add [of 49 "Suc 0" E tk iv endt s] s49(2) s50(2)
    by (simp del: fromAlpaca_passes.simps)
  have p50: "\<not> isl (fetch_of E tk iv s50)"
    using ok at50 by force
  have c: "list_all (\<lambda>p. \<not> isl p) (s_reqs s50)" "s_to s50 \<le> endt"
    "length (s_reqs s50) + 1 = 50 \<or> endt \<le> s_from s50 + 86400000"
    using s50(3,4,5) s49(3) e by simp_all
  from fromAlpaca_flush_step [OF p50 c]
  obtain s51 where s51:
    "\<And>fuel. fromAlpaca_loop (Suc fuel) E tk iv endt s50 = fromAlpaca_loop fuel E tk iv endt s51"
    "fromAlpaca_passes (Suc 0) E tk iv endt s50 = s51"
    "s_from s51 = s_from s50 + 86400000" "s_to s51 = s_from s50 + 86400000"
    "s_reqs s51 = []" "s_progressValue s51 = s_progressValue s50 + 1"
    "progress_updates (events (s_world s51))
       = progress_updates (events (s_world s50)) @ [s_progressValue s50 + 1]"
    "flushes (events (s_world s51)) = flushes (events (s_world s50)) @ [(length (s_reqs s50) + 1, True)]"
    by blast
  have at51: "fromAlpaca_passes 51 E tk iv endt s = s51"
    using fromAlpaca_passes_add [of 50 "Suc 0" E tk iv endt s] at50 s51(2)
    by (simp del: fromAlpaca_passes.simps)
  have "fromAlpaca_loop (51 + fuel) E tk iv endt s = fromAlpaca_loop fuel E tk iv endt s51" for fuel
  proof -
    have "51 + fuel = 49 + Suc (Suc fuel)" by simp
    then show ?thesis
      using s49(1) [of "Suc (Suc fuel)"] s50(1) [of "Suc fuel"] s51(1) [of fuel] by simp
  qed
  then show ?thesis
    using at51 s49(3,6,7,8,9) s50(3,5,6,7,8) s51(3-8) s(1)
    by (intro exI [of _ s51]) (simp del: fromAlpaca_passes.simps)
qed

lemma window_bounds:
  "window_from E w days gapDays = window_end E w gapDays - 86400000 * days"
  "loop_end E w 0 = window_end E w 0 - 900000"
  "gapDays \<noteq> 0 \<Longrightarrow> loop_end E w gapDays = window_end E w gapDays"
  by (simp_all add: window_from_def loop_end_def)

lemma fromAlpaca_init_simps:
  "s_from (fromAlpaca_init E w days gapDays) = window_from E w days gapDays"
  "s_to (fromAlpaca_init E w days gapDays) = window_from E w days gapDays"
  "s_reqs (fromAlpaca_init E w days gapDays) = []"
  "s_progressValue (fromAlpaca_init E w days gapDays) = 0"
  "events (s_world (fromAlpaca_init E w days gapDays))
     = events w @ [Log (History_loading (window_from E w days gapDays)), ProgressStart days 0]"
  by (simp_all add: fromAlpaca_init_def)

lemma progress_list:
  "map (\<lambda>i. 0 + 1 + int i) [0..<49] @ [0 + 50, 0 + 51] = map int [1..<52]"
  by (simp add: upt_conv_Cons)

lemma window_51_no_gap:
  assumes ok: "\<forall>i<51. \<not> isl (fetch_of E ticker interval
                 (fromAlpaca_passes i E ticker interval (loop_end E w 0) (fromAlpaca_init E w 51 0)))"
  shows "\<exists>w' cs. getHistoryFromAlpaca (51 + fuel) E w ticker 51 interval 0 = Some (w', Inr cs)
     \<and> flushes (events w') = flushes (events w) @ [(50, True), (1, True)]
     \<and> progress_updates (events w') = progress_updates (events w) @ map int [1..<52] @ [51]"
proof -
  let ?s0 = "fromAlpaca_init E w 51 0"
  have e: "s_from ?s0 + 50 * 86400000 \<le> loop_end E w 0" "loop_end E w 0 \<le> s_from ?s0 + 51 * 86400000"
    by (simp_all add: fromAlpaca_init_simps window_bounds)
  from fromAlpaca_51_steps [OF ok _ _ e]
  obtain s' where s':
    "\<And>fuel. fromAlpaca_loop (51 + fuel) E ticker interval (loop_end E w 0) ?s0
        = fromAlpaca_loop fuel E ticker interval (loop_end E w 0) s'"
    "s_to s' = s_from ?s0 + 51 * 86400000"
    "progress_updates (events (s_world s'))
       = progress_updates (events (s_world ?s0))
           @ map (\<lambda>i. s_progressValue ?s0 + 1 + int i) [0..<49]
           @ [s_progressValue ?s0 + 50, s_progressValue ?s0 + 51]"
    "flushes (events (s_world s')) = flushes (events (s_world ?s0)) @ [(50, True), (1, True)]"
    by (auto simp: fromAlpaca_init_simps)
  have "\<not> s_to s' \<le> loop_end E w 0"
    using s'(2) by (simp add: fromAlpaca_init_simps window_bounds)
  then have run: "fromAlpaca_loop (51 + fuel) E ticker interval (loop_end E w 0) ?s0 = Some (Inr s')"
    using s'(1) fromAlpaca_loop_exit by simp
  have "progress_updates (events (s_world s')) = progress_updates (events w) @ map int [1..<52]"
    using s'(3) progress_list by (simp add: fromAlpaca_init_simps del: upt_Suc)
  then show ?thesis
    using run s'(4) by (simp add: getHistoryFromAlpaca_def fromAlpaca_init_simps)
qed

lemma window_51_gap:
  assumes ok: "\<forall>i<52. \<not> isl (fetch_of E ticker interval
                 (fromAlpaca_passes i E ticker interval (loop_end E w gapDays) (fromAlpaca_init E w 51 gapDays)))"
    and gap: "gapDays \<noteq> 0"
  shows "\<exists>w' cs. getHistoryFromAlpaca (52 + fuel) E w ticker 51 interval gapDays = Some (w', Inr cs)
     \<and> flushes (events w') = flushes (events w) @ [(50, True), (1, True), (1, True)]"
proof -
  let ?s0 = "fromAlpaca_init E w 51 gapDays"
  let ?end = "loop_end E w gapDays"
  have e: "s_from ?s0 + 50 * 86400000 \<le> ?end" "?end \<le> s_from ?s0 + 51 * 86400000"
    using gap by (simp_all add: fromAlpaca_init_simps window_bounds)
  have ok51: "\<forall>i<51. \<not> isl (fetch_of E ticker interval (fromAlpaca_passes i E ticker interval ?end ?s0))"
    using ok by simp
  from fromAlpaca_51_steps [OF ok51 _ _ e]
  obtain s' where s':
    "\<And>fuel. fromAlpaca_loop (51 + fuel) E ticker interval ?end ?s0
        = fromAlpaca_loop fuel E ticker interval ?end s'"
    "fromAlpaca_passes 51 E ticker interval ?end ?s0 = s'"
    "s_from s' = s_from ?s0 + 51 * 86400000" "s_to s' = s_from ?s0 + 51 * 86400000"
    "s_reqs s' = []"
    "flushes (events (s_world s')) = flushes (events (s_world ?s0)) @ [(50, True), (1, True)]"
    by (auto simp: fromAlpaca_init_simps simp del: fromAlpaca_passes.simps)
  have p: "\<not> isl (fetch_of E ticker interval s')"
    using ok s'(2) by force
  have c: "list_all (\<lambda>p. \<not> isl p) (s_reqs s')" "s_to s' \<le> ?end"
    "length (s_reqs s') + 1 = 50 \<or> ?end \<le> s_from s' + 86400000"
    using s'(3,4,5) gap by (simp_all add: fromAlpaca_init_simps window_bounds)
  from fromAlpaca_flush_step [OF p c]
  obtain s2 where s2:
    "\<And>fuel. fromAlpaca_loop (Suc fuel) E ticker interval ?end s' = fromAlpaca_loop fuel E ticker interval ?end s2"
    "s_to s2 = s_from s' + 86400000"
    "flushes (events (s_world s2)) = flushes (events (s_world s')) @ [(length (s_reqs s') + 1, True)]"
    by blast
  have "\<not> s_to s2 \<le> ?end"
    using s2(2) s'(3) gap by (simp add: fromAlpaca_init_simps window_bounds)
  then have "fromAlpaca_loop fuel E ticker interval ?end s2 = Some (Inr s2)"
    using fromAlpaca_loop_exit by simp
  moreover have "52 + fuel = 51 + Suc fuel" by simp
  ultimately have run: "fromAlpaca_loop (52 + fuel) E ticker interval ?end ?s0 = Some (Inr s2)"
    using s'(1) [of "Suc fuel"] s2(1) [of fuel] by simp
  show ?thesis
    using run s2(3) s'(5,6) by (simp add: getHistoryFromAlpaca_def fromAlpaca_init_simps)
qed

text \<open>
  Claim C2, as amended.  For every fixed-window request of 51 days with no gap days in
  which none of the 51 per-day fetches of the run fails, the run returns after exactly
  two batch flushes, of 50 promises and then of 1, both successful.  The progress sink
  is updated once per enqueued day, with the values \<open>1, 2, \<dots>, 51\<close>, and once more with
  \<open>51\<close> when the loop is over.  The hypothesis is about this run alone: the fetch made in
  its \<open>(i + 1)\<close>-th pass, for \<open>i < 51\<close>, in the world as that pass finds it.
\<close>

theorem fifty_one_day_window:
  assumes "\<forall>i<51. \<not> isl (fetch_of E ticker interval
                 (fromAlpaca_passes i E ticker interval (loop_end E w 0) (fromAlpaca_init E w 51 0)))"
  shows "\<exists>w' cs. getHistoryFromAlpaca (51 + fuel) E w ticker 51 interval 0 = Some (w', Inr cs)
     \<and> flushes (events w') = flushes (events w) @ [(50, True), (1, True)]
     \<and> progress_updates (events w') = progress_updates (events w) @ map int [1..<52] @ [51]"
  using window_51_no_gap [OF assms] by blast

theorem fifty_one_day_window_witness:
  "\<exists>w' cs. getHistoryFromAlpaca 51 (demo_env up_empty) demo_world ''ABC'' 51 ''day'' 0 = Some (w', Inr cs)
     \<and> flushes (events w') = [(50, True), (1, True)]
     \<and> progress_updates (events w') = map int [1..<52] @ [51]"
proof -
  have ok: "\<forall>i<51. \<not> isl (fetch_of (demo_env up_empty) ''ABC'' ''day''
                 (fromAlpaca_passes i (demo_env up_empty) ''ABC'' ''day''
                    (loop_end (demo_env up_empty) demo_world 0)
                    (fromAlpaca_init (demo_env up_empty) demo_world 51 0)))"
    using demo_fetch_of_ok by blast
  from fifty_one_day_window [OF ok, where fuel = 0]
  show ?thesis
    by (simp del: upt_Suc)
qed

text \<open>
  The claim as stated fails on the UTC machine: with no gap days the progress sink
  receives 52 updates instead of two, and with one gap day the same window of 51 days
  is flushed three times, because the chunk that starts at the end of the window is
  fetched as well.
\<close>

theorem fifty_one_day_window_counterexample:
  "map_option (progress_updates \<circ> events \<circ> fst)
     (getHistoryFromAlpaca 51 (demo_env up_empty) demo_world ''ABC'' 51 ''day'' 0)
     = Some (map int [1..<52] @ [51])
   \<and> length (map int [1..<52] @ [51]) = 52
   \<and> map_option (flushes \<circ> events \<circ> fst)
       (getHistoryFromAlpaca 52 (demo_env up_empty) demo_world ''ABC'' 51 ''day'' 1)
     = Some [(50, True), (1, True), (1, True)]"
proof -
  have g: "(1::int) \<noteq> 0" by simp
  have ok0: "\<forall>i<51. \<not> isl (fetch_of (demo_env up_empty) ''ABC'' ''day''
                 (fromAlpaca_passes i (demo_env up_empty) ''ABC'' ''day''
                    (loop_end (demo_env up_empty) demo_world 0)
                    (fromAlpaca_init (demo_env up_empty) demo_world 51 0)))"
    using demo_fetch_of_ok by blast
  have ok1: "\<forall>i<52. \<not> isl (fetch_of (demo_env up_empty) ''ABC'' ''day''
                 (fromAlpaca_passes i (demo_env up_empty) ''ABC'' ''day''
                    (loop_end (demo_env up_empty) demo_world 1)
                    (fromAlpaca_init (demo_env up_empty) demo_world 51 1)))"
    using demo_fetch_of_ok by blast
  from window_51_no_gap [OF ok0, where fuel = 0] window_51_gap [OF ok1 g, where fuel = 0]
  show ?thesis
    by (auto simp del: upt_Suc)
qed

section \<open>The checkpoint of a batch that starts at the epoch\<close>

text \<open>
  Claim C4 at the request \<open>start = 0\<close>, \<open>end = 172800000\<close> on the UTC machine, with the
  first upstream call failing.  The first batch begins at cursor \<open>0\<close> and holds the days
  \<open>[0, 86400000]\<close> and \<open>[86400000, 172800000]\<close>.  In the second pass \<^verbatim>\<open>!chunkStart\<close>
  holds again, because the checkpoint is \<open>0\<close>, and the checkpoint is overwritten with
  \<open>86400000\<close>.  After the failed flush the cursor is \<open>86400000\<close>, not \<open>0\<close>, and the day
  that starts at \<open>0\<close> is never requested again.
\<close>

theorem checkpoint_overwritten_at_epoch:
  "s_from (interval_init (demo_env (up_fail_first 1)) demo_world 0) = 0
   \<and> flushes (events (s_world
         (interval_step (demo_env (up_fail_first 1)) ''ABC'' ''day'' (norm_end 172800000)
           (interval_step (demo_env (up_fail_first 1)) ''ABC'' ''day'' (norm_end 172800000)
             (interval_init (demo_env (up_fail_first 1)) demo_world 0))))) = [(2, False)]
   \<and> s_from
         (interval_step (demo_env (up_fail_first 1)) ''ABC'' ''day'' (norm_end 172800000)
           (interval_step (demo_env (up_fail_first 1)) ''ABC'' ''day'' (norm_end 172800000)
             (interval_init (demo_env (up_fail_first 1)) demo_world 0))) = 86400000
   \<and> map_option (enqueued \<circ> events \<circ> fst)
         (getHistoryIntervalAlpaca (Suc (Suc (Suc (Suc 0)))) (demo_env (up_fail_first 1)) demo_world
            ''ABC'' 0 172800000 ''day'')
       = Some [(0, 86400000), (86400000, 172800000), (86400000, 172800000), (172800000, 259200000)]"
  by (simp add: run_defs)

text \<open>
  Whatever the checkpoint, a failed flush keeps the committed list, empties the batch and
  moves the cursor to the checkpoint as it stands at that moment.
\<close>

lemma failed_flush_rewinds:
  assumes "length (s_reqs s) + 1 = 50 \<or> endt \<le> s_from s + 86400000"
    and "promise_all (s_reqs s @ [snd (requestDay E (emit [Enqueue (s_from s) (s_from s + 86400000)] (s_world s))
                                   (s_from s) (s_from s + 86400000) tk iv)]) = Inl e"
  shows "s_result (interval_step E tk iv endt s) = s_result s
       \<and> s_reqs (interval_step E tk iv endt s) = []
       \<and> s_chunkStart (interval_step E tk iv endt s) = Some (s_from (interval_step E tk iv endt s))
       \<and> s_from (interval_step E tk iv endt s)
            = (if not_chunkStart (s_chunkStart s) then s_from s else the (s_chunkStart s))"
  using interval_step_fail [OF assms] by simp

section \<open>Unsupported timeframes\<close>

lemma requestDay_unsupported:
  assumes "convertTimeFrame iv = Inl e"
  shows "upstream_calls (events (fst (requestDay E w f t tk iv))) = upstream_calls (events w)"
    and "files (fst (requestDay E w f t tk iv)) = files w"
  using assms
  by (auto simp: requestDay_def Let_def split: option.splits simp del: convertTimeFrame.simps)

lemma requestDay_bad_day:
  assumes "convertTimeFrame iv = Inl e" and "\<not> isWeekend E f"
    and "readFile w (getPath E tk iv f t) = None"
  shows "snd (requestDay E w f t tk iv) = Inl e"
  using assms by (simp add: requestDay_def Let_def del: convertTimeFrame.simps)

lemma readFile_emit [simp]:
  "readFile (emit es w) p = readFile w p"
  by (simp add: readFile_def)

lemma fromAlpaca_unsupported_loop:
  assumes tf: "convertTimeFrame iv = Inl e"
  shows "promise_all (s_reqs s @ [snd (requestDay E (emit [Enqueue (s_from s) (s_from s + 86400000)] (s_world s))
                                   (s_from s) (s_from s + 86400000) tk iv)]) = Inl e
     \<Longrightarrow> length (s_reqs s) < 50 \<Longrightarrow> s_to s \<le> endt \<Longrightarrow>
     \<exists>n w'. (\<forall>fuel. fromAlpaca_loop (n + fuel) E tk iv endt s = Some (Inl (e, w')))
        \<and> upstream_calls (events w') = upstream_calls (events (s_world s))
        \<and> sleeps (events w') = sleeps (events (s_world s))
        \<and> files w' = files (s_world s)"
proof (induction "49 - length (s_reqs s)" arbitrary: s)
  case 0
  let ?rq = "requestDay E (emit [Enqueue (s_from s) (s_from s + 86400000)] (s_world s))
                                   (s_from s) (s_from s + 86400000) tk iv"
  have fl: "length (s_reqs s) + 1 = 50 \<or> endt \<le> s_from s + 86400000"
    using "0.hyps" "0.prems"(2) by simp
  obtain es where es: "events (fst ?rq) = events (s_world s) @ Enqueue (s_from s) (s_from s + 86400000) # es"
    "list_all is_io es"
    using requestDay_events [of E "emit [Enqueue (s_from s) (s_from s + 86400000)] (s_world s)"
        "s_from s" "s_from s + 86400000" tk iv]
    by auto
  have up: "upstream_calls (events (fst ?rq)) = upstream_calls (events (s_world s))"
    "files (fst ?rq) = files (s_world s)"
    using requestDay_unsupported [OF tf, of E "emit [Enqueue (s_from s) (s_from s + 86400000)] (s_world s)"]
    by simp_all
  have sl: "sleeps (events (fst ?rq)) = sleeps (events (s_world s))"
    using es(1) io_proj [OF es(2)] by simp
  let ?w' = "emit [Flush (length (s_reqs s) + 1) False,
                   ProgressUpdate (s_progressValue s - int (length (s_reqs s))),
                   Log (Error_message (err_message e))] (fst ?rq)"
  have "fromAlpaca_loop (1 + fuel) E tk iv endt s = Some (Inl (e, ?w'))" for fuel
    using fromAlpaca_step_fail [OF fl "0.prems"(1)] "0.prems"(3) by simp
  then show ?case
    using up sl by (intro exI [of _ 1] exI [of _ ?w']) simp
next
  case (Suc m)
  let ?rq = "requestDay E (emit [Enqueue (s_from s) (s_from s + 86400000)] (s_world s))
                                   (s_from s) (s_from s + 86400000) tk iv"
  obtain es where es: "events (fst ?rq) = events (s_world s) @ Enqueue (s_from s) (s_from s + 86400000) # es"
    "list_all is_io es"
    using requestDay_events [of E "emit [Enqueue (s_from s) (s_from s + 86400000)] (s_world s)"
        "s_from s" "s_from s + 86400000" tk iv]
    by auto
  have up: "upstream_calls (events (fst ?rq)) = upstream_calls (events (s_world s))"
    "files (fst ?rq) = files (s_world s)"
    using requestDay_unsupported [OF tf, of E "emit [Enqueue (s_from s) (s_from s + 86400000)] (s_world s)"]
    by simp_all
  have sl: "sleeps (events (fst ?rq)) = sleeps (events (s_world s))"
    using es(1) io_proj [OF es(2)] by simp
  show ?case
  proof (cases "length (s_reqs s) + 1 = 50 \<or> endt \<le> s_from s + 86400000")
    case True
    let ?w' = "emit [Flush (length (s_reqs s) + 1) False,
                   ProgressUpdate (s_progressValue s - int (length (s_reqs s))),
                   Log (Error_message (err_message e))] (fst ?rq)"
    have "fromAlpaca_loop (1 + fuel) E tk iv endt s = Some (Inl (e, ?w'))" for fuel
      using fromAlpaca_step_fail [OF True Suc.prems(1)] Suc.prems(3) by simp
    then show ?thesis
      using up sl by (intro exI [of _ 1] exI [of _ ?w']) simp
  next
    case False
    then have nf: "length (s_reqs s) + 1 \<noteq> 50" "s_from s + 86400000 < endt"
      by simp_all
    let ?s1 = "s\<lparr>s_from := s_from s + 86400000, s_to := s_from s + 86400000,
       s_chunkStart := Some (if not_chunkStart (s_chunkStart s) then s_from s else the (s_chunkStart s)),
       s_reqs := s_reqs s @ [snd ?rq],
       s_world := emit [ProgressUpdate (s_progressValue s + 1)] (fst ?rq),
       s_progressValue := s_progressValue s + 1\<rparr>"
    have st: "fromAlpaca_step E tk iv endt s = Inr ?s1"
      using fromAlpaca_step_enqueue [OF nf] by simp
    have a: "m = 49 - length (s_reqs ?s1)" "length (s_reqs ?s1) < 50" "s_to ?s1 \<le> endt"
      using Suc.hyps(2) Suc.prems(2) nf by simp_all
    have "promise_all (s_reqs ?s1) = Inl e"
      using Suc.prems(1) by simp
    then have b: "promise_all (s_reqs ?s1 @ [snd (requestDay E
        (emit [Enqueue (s_from ?s1) (s_from ?s1 + 86400000)] (s_world ?s1))
        (s_from ?s1) (s_from ?s1 + 86400000) tk iv)]) = Inl e"
      by (rule promise_all_append_Inl)
    from Suc.hyps(1) [OF a(1) b a(2,3)]
    obtain n w' where r: "\<And>fuel. fromAlpaca_loop (n + fuel) E tk iv endt ?s1 = Some (Inl (e, w'))"
       "upstream_calls (events w') = upstream_calls (events (s_world ?s1))"
       "sleeps (events w') = sleeps (events (s_world ?s1))"
       "files w' = files (s_world ?s1)"
      by blast
    have "fromAlpaca_loop (Suc n + fuel) E tk iv endt s = Some (Inl (e, w'))" for fuel
      using st r(1) Suc.prems(3) by simp
    then show ?thesis
      using r(2,3,4) up sl by (intro exI [of _ "Suc n"] exI [of _ w']) simp
  qed
qed

lemma fromAlpaca_step_unsupported:
  assumes tf: "convertTimeFrame iv = Inl e"
    and st: "fromAlpaca_step E tk iv endt s = Inr s1"
  shows "upstream_calls (events (s_world s1)) = upstream_calls (events (s_world s))
       \<and> files (s_world s1) = files (s_world s)
       \<and> (length (s_reqs s) < 50 \<longrightarrow> length (s_reqs s1) < 50)"
proof -
  let ?rq = "requestDay E (emit [Enqueue (s_from s) (s_from s + 86400000)] (s_world s))
                                   (s_from s) (s_from s + 86400000) tk iv"
  have up: "upstream_calls (events (fst ?rq)) = upstream_calls (events (s_world s))"
    "files (fst ?rq) = files (s_world s)"
    using requestDay_unsupported [OF tf, of E "emit [Enqueue (s_from s) (s_from s + 86400000)] (s_world s)"]
    by simp_all
  show ?thesis
  proof (cases "length (s_reqs s) + 1 = 50 \<or> endt \<le> s_from s + 86400000")
    case False
    then have nf: "length (s_reqs s) + 1 \<noteq> 50" "s_from s + 86400000 < endt"
      by simp_all
    show ?thesis
      using fromAlpaca_step_enqueue [OF nf, of E tk iv] st up nf(1) by auto
  next
    case True
    show ?thesis
    proof (cases "promise_all (s_reqs s @ [snd ?rq])")
      case (Inl e')
      then show ?thesis
        using fromAlpaca_step_fail [OF True Inl] st by simp
    next
      case (Inr ds)
      obtain w' data ls where c: "fromAlpaca_step E tk iv endt s =
         Inr (s\<lparr>s_from := s_from s + 86400000, s_to := s_from s + 86400000,
           s_chunkStart := Some (s_from s + 86400000), s_tries := 0, s_reqs := [],
           s_result := s_result s @ data,
           s_world := emit [ProgressUpdate (s_progressValue s + 1)] w',
           s_progressValue := s_progressValue s + 1\<rparr>)"
        "events w' = events (fst ?rq) @ Flush (length (s_reqs s) + 1) True # ls"
        "list_all is_log ls" "files w' = files (fst ?rq)"
        using fromAlpaca_step_commit [OF True Inr] by blast
      show ?thesis
        using c(1,2,4) st up log_proj [OF c(3)] by auto
    qed
  qed
qed

lemma fromAlpaca_passes_unsupported:
  assumes tf: "convertTimeFrame iv = Inl e"
  shows "upstream_calls (events (s_world (fromAlpaca_passes i E tk iv endt s)))
           = upstream_calls (events (s_world s))
       \<and> files (s_world (fromAlpaca_passes i E tk iv endt s)) = files (s_world s)
       \<and> (length (s_reqs s) < 50 \<longrightarrow> length (s_reqs (fromAlpaca_passes i E tk iv endt s)) < 50)"
proof (induction i arbitrary: s)
  case 0
  then show ?case by simp
next
  case (Suc i)
  show ?case
  proof (cases "s_to s \<le> endt")
    case False
    then show ?thesis by simp
  next
    case True
    show ?thesis
    proof (cases "fromAlpaca_step E tk iv endt s")
      case (Inl ew)
      with True show ?thesis by simp
    next
      case (Inr s1)
      then show ?thesis
        using True Suc.IH [of s1] fromAlpaca_step_unsupported [OF tf Inr] by simp
    qed
  qed
qed

lemma promise_all_snoc_Inl:
  "list_all (\<lambda>p. \<not> isl p) ps \<Longrightarrow> promise_all (ps @ [Inl e]) = Inl e"
proof (induction ps)
  case Nil
  then show ?case by simp
next
  case (Cons p ps)
  then show ?case by (cases p) auto
qed

lemma readFile_files:
  "files a = files b \<Longrightarrow> readFile a p = readFile b p"
  by (simp add: readFile_def)

text \<open>
  Claim C6, as amended.  Take a fixed-window request whose timeframe is not supported,
  and any state \<open>s\<close> of its run, the one before the \<open>(i + 1)\<close>-th pass.  If the day at the
  cursor is neither a weekend day nor present in the cache, and no promise already in
  the batch is rejected, then the call returns the unsupported-timeframe error to the
  caller: in the whole call no upstream call is made, no sleep is requested and no
  history file is written.
\<close>

theorem unsupported_timeframe_surfaces:
  assumes "convertTimeFrame interval = Inl e"
    and "s = fromAlpaca_passes i E ticker interval (loop_end E w gapDays) (fromAlpaca_init E w days gapDays)"
    and "s_to s \<le> loop_end E w gapDays"
    and "list_all (\<lambda>p. \<not> isl p) (s_reqs s)"
    and "\<not> isWeekend E (s_from s)"
    and "readFile w (getPath E ticker interval (s_from s) (s_from s + 86400000)) = None"
  shows "\<exists>n w'. (\<forall>fuel. getHistoryFromAlpaca (n + fuel) E w ticker days interval gapDays = Some (w', Inl e))
        \<and> upstream_calls (events w') = upstream_calls (events w)
        \<and> sleeps (events w') = sleeps (events w)
        \<and> files w' = files w"
proof -
  let ?end = "loop_end E w gapDays"
  let ?s0 = "fromAlpaca_init E w days gapDays"
  have inv: "upstream_calls (events (s_world s)) = upstream_calls (events (s_world ?s0))"
    "files (s_world s) = files (s_world ?s0)" "length (s_reqs s) < 50"
    using fromAlpaca_passes_unsupported [OF assms(1), of i E ticker ?end ?s0] assms(2)
    by (simp_all add: fromAlpaca_init_simps)
  have f0: "files (s_world ?s0) = files w"
    by (simp add: fromAlpaca_init_def)
  obtain new where new: "events (s_world s) = events (s_world ?s0) @ new" "sleeps new = []"
    using fromAlpaca_passes_trace [of i E ticker interval ?end ?s0] assms(2) by blast
  have rd: "readFile (emit [Enqueue (s_from s) (s_from s + 86400000)] (s_world s))
              (getPath E ticker interval (s_from s) (s_from s + 86400000)) = None"
    using assms(6) readFile_files [of "s_world s" w] inv(2) f0 by simp
  have "snd (requestDay E (emit [Enqueue (s_from s) (s_from s + 86400000)] (s_world s))
               (s_from s) (s_from s + 86400000) ticker interval) = Inl e"
    using requestDay_bad_day [OF assms(1,5) rd] .
  then have p: "promise_all (s_reqs s @ [snd (requestDay E (emit [Enqueue (s_from s) (s_from s + 86400000)] (s_world s))
               (s_from s) (s_from s + 86400000) ticker interval)]) = Inl e"
    using promise_all_snoc_Inl [OF assms(4)] by simp
  from fromAlpaca_unsupported_loop [OF assms(1) p inv(3) assms(3)]
  obtain n1 w' where r: "\<And>fuel. fromAlpaca_loop (n1 + fuel) E ticker interval ?end s = Some (Inl (e, w'))"
       "upstream_calls (events w') = upstream_calls (events (s_world s))"
       "sleeps (events w') = sleeps (events (s_world s))"
       "files w' = files (s_world s)"
    by blast
  obtain n0 where n0: "\<And>fuel. fromAlpaca_loop (n0 + fuel) E ticker interval ?end ?s0
              = fromAlpaca_loop fuel E ticker interval ?end s"
    using fromAlpaca_passes_loop [of i E ticker interval ?end ?s0] assms(2) by blast
  have "fromAlpaca_loop (n0 + n1 + fuel) E ticker interval ?end ?s0 = Some (Inl (e, w'))" for fuel
  proof -
    have "n0 + n1 + fuel = n0 + (n1 + fuel)" by simp
    then show ?thesis
      using n0 [of "n1 + fuel"] r(1) [of fuel] by (simp only:)
  qed
  then have "getHistoryFromAlpaca (n0 + n1 + fuel) E w ticker days interval gapDays = Some (w', Inl e)"
    for fuel
    by (simp add: getHistoryFromAlpaca_def)
  moreover have "upstream_calls (events w') = upstream_calls (events w)"
    using r(2) inv(1) by (simp add: fromAlpaca_init_simps)
  moreover have "sleeps (events w') = sleeps (events w)"
    using r(3) new by (simp add: fromAlpaca_init_simps)
  moreover have "files w' = files w"
    using r(4) inv(2) f0 by simp
  ultimately show ?thesis
    by (intro exI [of _ "n0 + n1"] exI [of _ w']) simp
qed

text \<open>
  Two windows requested with the timeframe \<open>5min\<close>: the one day Thursday 2021-01-14,
  where the first pass meets the uncached weekday; and the two days from Sunday
  2021-01-17, where the first pass enqueues the Sunday without looking at the timeframe
  and the second pass meets the Monday.
\<close>

theorem unsupported_timeframe_surfaces_witness:
  "convertTimeFrame ''5min'' = Inl (ThrownString ''Alpaca integration does not support 5min timeframe'')
   \<and> (\<exists>n w'. (\<forall>fuel. getHistoryFromAlpaca (n + fuel) (demo_env up_empty) demo_world ''ABC'' 1 ''5min'' 0
                        = Some (w', Inl (ThrownString ''Alpaca integration does not support 5min timeframe'')))
          \<and> upstream_calls (events w') = [] \<and> sleeps (events w') = [])
   \<and> utc_weekend (window_from (demo_env up_empty) (demo_world\<lparr>now := 1611057600000\<rparr>) 2 0)
   \<and> (\<exists>n w'. (\<forall>fuel. getHistoryFromAlpaca (n + fuel) (demo_env up_empty)
                         (demo_world\<lparr>now := 1611057600000\<rparr>) ''ABC'' 2 ''5min'' 0
                        = Some (w', Inl (ThrownString ''Alpaca integration does not support 5min timeframe'')))
          \<and> upstream_calls (events w') = [] \<and> sleeps (events w') = [])"
proof -
  let ?E = "demo_env up_empty"
  let ?w2 = "demo_world\<lparr>now := 1611057600000\<rparr>"
  let ?s1 = "fromAlpaca_passes 0 ?E ''ABC'' ''5min'' (loop_end ?E demo_world 0) (fromAlpaca_init ?E demo_world 1 0)"
  let ?s2 = "fromAlpaca_passes (Suc 0) ?E ''ABC'' ''5min'' (loop_end ?E ?w2 0) (fromAlpaca_init ?E ?w2 2 0)"
  have tf: "convertTimeFrame ''5min''
      = Inl (ThrownString ''Alpaca integration does not support 5min timeframe'')"
    by simp
  have wk: "utc_weekend (window_from ?E ?w2 2 0)"
    by (simp add: window_run_defs)
  have a1: "s_to ?s1 \<le> loop_end ?E demo_world 0" "list_all (\<lambda>p. \<not> isl p) (s_reqs ?s1)"
    "\<not> isWeekend ?E (s_from ?s1)"
    by (simp_all add: window_run_defs)
  have a2: "s_to ?s2 \<le> loop_end ?E ?w2 0" "list_all (\<lambda>p. \<not> isl p) (s_reqs ?s2)"
    "\<not> isWeekend ?E (s_from ?s2)"
    by (simp_all add: window_run_defs)
  have r1: "readFile demo_world p = None" and r2: "readFile ?w2 p = None" for p
    by (simp_all add: readFile_def)
  from unsupported_timeframe_surfaces [OF tf refl a1 r1]
  obtain n1 w1 where
    "\<forall>fuel. getHistoryFromAlpaca (n1 + fuel) ?E demo_world ''ABC'' 1 ''5min'' 0
        = Some (w1, Inl (ThrownString ''Alpaca integration does not support 5min timeframe''))"
    "upstream_calls (events w1) = []" "sleeps (events w1) = []"
    by auto
  moreover from unsupported_timeframe_surfaces [OF tf refl a2 r2]
  obtain n2 w2 where
    "\<forall>fuel. getHistoryFromAlpaca (n2 + fuel) ?E ?w2 ''ABC'' 2 ''5min'' 0
        = Some (w2, Inl (ThrownString ''Alpaca integration does not support 5min timeframe''))"
    "upstream_calls (events w2) = []" "sleeps (events w2) = []"
    by (auto simp: demo_world_def)
  ultimately show ?thesis
    using tf wk by blast
qed

text \<open>
  The claim as stated fails in two ways.  In the explicit-range entry point the request
  for Monday 2021-01-04 with the timeframe \<open>5min\<close> returns the empty list to the caller
  after a backoff sleep of 20 s: the thrown string is caught like any other failure.  In
  the fixed-window entry point a window that consists of Sunday 2021-01-17 returns the
  empty list as well: a weekend day never consults the timeframe.
\<close>

theorem unsupported_timeframe_counterexample:
  "convertTimeFrame ''5min'' = Inl (ThrownString ''Alpaca integration does not support 5min timeframe'')
   \<and> map_option snd
        (getHistoryIntervalAlpaca (Suc 0) (demo_env up_empty) demo_world ''ABC''
           1609718400000 1609718400000 ''5min'') = Some []
   \<and> map_option (sleeps \<circ> events \<circ> fst)
        (getHistoryIntervalAlpaca (Suc 0) (demo_env up_empty) demo_world ''ABC''
           1609718400000 1609718400000 ''5min'') = Some [20000]
   \<and> map_option snd
        (getHistoryFromAlpaca (Suc 0) (demo_env up_empty) (demo_world\<lparr>now := 1610971200000\<rparr>)
           ''ABC'' 1 ''5min'' 0) = Some (Inr [])"
  by (simp add: window_run_defs)

end
